theory Spec2Isabelle
  imports Complex_Main "HOL-Library.Word" "HOL-Library.Multiset"
begin

section \<open>The KUSDOracle contract (Solidity 0.8.19)\<close>

text \<open>
  The contract is embedded with \<open>uint256\<close> as 256-bit words. Solidity 0.8 checks its
  arithmetic: an overflow or underflow reverts with Panic(0x11), a division by zero with
  Panic(0x12). Every \<open>require\<close> and every panic is a value of \<open>error\<close>; a call returns
  \<open>error + result\<close>. \<open>msg.sender\<close> and \<open>block.timestamp\<close> are explicit arguments.
\<close>

type_synonym uint256 = "256 word"
type_synonym address = "160 word"
type_synonym bytes32 = "256 word"

datatype error =
    NotAuthorized          \<comment> \<open>KUSDOracle/not-authorized\<close>
  | InvalidAddress         \<comment> \<open>KUSDOracle/invalid-address\<close>
  | NodeAlreadyActive      \<comment> \<open>KUSDOracle/node-already-active\<close>
  | NodeNotActive          \<comment> \<open>KUSDOracle/node-not-active\<close>
  | InvalidPrice           \<comment> \<open>KUSDOracle/invalid-price\<close>
  | InsufficientSources    \<comment> \<open>KUSDOracle/insufficient-sources\<close>
  | MismatchedArrays       \<comment> \<open>KUSDOracle/mismatched-arrays\<close>
  | PriceValidationFailed  \<comment> \<open>KUSDOracle/price-validation-failed\<close>
  | StalePrice             \<comment> \<open>KUSDOracle/stale-price\<close>
  | PanicArithmetic        \<comment> \<open>Panic(0x11): checked arithmetic overflowed or underflowed\<close>
  | PanicDivisionByZero    \<comment> \<open>Panic(0x12)\<close>

record PriceData =
  price :: uint256
  timestamp :: uint256
  valid :: bool

record OracleNode =
  nodeAddress :: address
  stake :: uint256
  reputation :: uint256
  active :: bool
  lastUpdate :: uint256

record KUSDOracle =
  wards :: "address \<Rightarrow> uint256"
  asset :: bytes32
  priceData :: PriceData
  nodes :: "address \<Rightarrow> OracleNode"
  nodeList :: "address list"
  requiredConfirmations :: uint256

definition STALENESS_THRESHOLD :: uint256 where
  "STALENESS_THRESHOLD = 3600"

definition MAX_DEVIATION :: uint256 where
  "MAX_DEVIATION = 1000"

definition MIN_SOURCES :: nat where
  "MIN_SOURCES = 3"

subsection \<open>Checked arithmetic\<close>

definition checked_add :: "uint256 \<Rightarrow> uint256 \<Rightarrow> error + uint256" where
  "checked_add a b = (if unat a + unat b < 2 ^ 256 then Inr (a + b) else Inl PanicArithmetic)"

definition checked_sub :: "uint256 \<Rightarrow> uint256 \<Rightarrow> error + uint256" where
  "checked_sub a b = (if a < b then Inl PanicArithmetic else Inr (a - b))"

definition checked_mul :: "uint256 \<Rightarrow> uint256 \<Rightarrow> error + uint256" where
  "checked_mul a b = (if unat a * unat b < 2 ^ 256 then Inr (a * b) else Inl PanicArithmetic)"

definition checked_div :: "uint256 \<Rightarrow> uint256 \<Rightarrow> error + uint256" where
  "checked_div a b = (if b = 0 then Inl PanicDivisionByZero else Inr (a div b))"

subsection \<open>Construction and authorization\<close>

text \<open>Storage starts zeroed; the constructor sets the asset and makes the deployer a ward.\<close>

definition constructor :: "bytes32 \<Rightarrow> address \<Rightarrow> KUSDOracle" where
  "constructor a sender =
     \<lparr> wards = (\<lambda>_. 0)(sender := 1),
       asset = a,
       priceData = \<lparr> price = 0, timestamp = 0, valid = False \<rparr>,
       nodes = (\<lambda>_. \<lparr> nodeAddress = 0, stake = 0, reputation = 0, active = False,
                       lastUpdate = 0 \<rparr>),
       nodeList = [],
       requiredConfirmations = 3 \<rparr>"

text \<open>The modifier \<open>auth\<close>: \<open>require(wards[msg.sender] == 1)\<close>.\<close>

definition auth :: "KUSDOracle \<Rightarrow> address \<Rightarrow> bool" where
  "auth st sender = (wards st sender = 1)"

definition rely :: "KUSDOracle \<Rightarrow> address \<Rightarrow> address \<Rightarrow> error + KUSDOracle" where
  "rely st sender usr =
     (if \<not> auth st sender then Inl NotAuthorized
      else Inr (st\<lparr> wards := (wards st)(usr := 1) \<rparr>))"

definition deny :: "KUSDOracle \<Rightarrow> address \<Rightarrow> address \<Rightarrow> error + KUSDOracle" where
  "deny st sender usr =
     (if \<not> auth st sender then Inl NotAuthorized
      else Inr (st\<lparr> wards := (wards st)(usr := 0) \<rparr>))"

subsection \<open>Reading the price\<close>

definition peek :: "KUSDOracle \<Rightarrow> uint256 \<Rightarrow> error + (bytes32 \<times> bool)" where
  "peek st now =
     (case checked_sub now (timestamp (priceData st)) of
        Inl e \<Rightarrow> Inl e
      | Inr age \<Rightarrow>
          (let fresh = (age \<le> STALENESS_THRESHOLD);
               v = (valid (priceData st) \<and> fresh \<and> price (priceData st) > 0)
           in Inr (price (priceData st), v)))"

definition read :: "KUSDOracle \<Rightarrow> uint256 \<Rightarrow> error + bytes32" where
  "read st now =
     (if \<not> valid (priceData st) then Inl InvalidPrice
      else case checked_sub now (timestamp (priceData st)) of
             Inl e \<Rightarrow> Inl e
           | Inr age \<Rightarrow>
               if \<not> age \<le> STALENESS_THRESHOLD then Inl StalePrice
               else Inr (price (priceData st)))"

definition getPriceData :: "KUSDOracle \<Rightarrow> uint256 \<times> uint256 \<times> bool" where
  "getPriceData st =
     (price (priceData st), timestamp (priceData st), valid (priceData st))"

definition isFresh :: "KUSDOracle \<Rightarrow> uint256 \<Rightarrow> error + bool" where
  "isFresh st now =
     (case checked_sub now (timestamp (priceData st)) of
        Inl e \<Rightarrow> Inl e
      | Inr age \<Rightarrow> Inr (age \<le> STALENESS_THRESHOLD))"

subsection \<open>Oracle node management\<close>

definition registerNode ::
  "KUSDOracle \<Rightarrow> address \<Rightarrow> address \<Rightarrow> uint256 \<Rightarrow> error + KUSDOracle" where
  "registerNode st sender addr stk =
     (if \<not> auth st sender then Inl NotAuthorized
      else if \<not> addr \<noteq> 0 then Inl InvalidAddress
      else if \<not> \<not> active (nodes st addr) then Inl NodeAlreadyActive
      else Inr (st\<lparr> nodes := (nodes st)(addr :=
                        \<lparr> nodeAddress = addr, stake = stk, reputation = 100,
                          active = True, lastUpdate = 0 \<rparr>),
                    nodeList := nodeList st @ [addr] \<rparr>))"

definition deactivateNode ::
  "KUSDOracle \<Rightarrow> address \<Rightarrow> address \<Rightarrow> string \<Rightarrow> error + KUSDOracle" where
  "deactivateNode st sender addr reason =
     (if \<not> auth st sender then Inl NotAuthorized
      else if \<not> active (nodes st addr) then Inl NodeNotActive
      else Inr (st\<lparr> nodes := (nodes st)(addr := (nodes st addr)\<lparr> active := False \<rparr>) \<rparr>))"

text \<open>
  The counting loop of \<open>getActiveNodeCount\<close>. The index and the count stay below the
  length of \<open>nodeList\<close>, so they are natural numbers here.
\<close>

function getActiveNodeCount_loop :: "KUSDOracle \<Rightarrow> nat \<Rightarrow> nat \<Rightarrow> nat" where
  "getActiveNodeCount_loop st i cnt =
     (if i < length (nodeList st)
      then getActiveNodeCount_loop st (i + 1)
             (if active (nodes st (nodeList st ! i)) then cnt + 1 else cnt)
      else cnt)"
  by pat_completeness auto
termination
  by (relation "measure (\<lambda>(st, i, cnt). length (nodeList st) - i)") auto

definition getActiveNodeCount :: "KUSDOracle \<Rightarrow> nat" where
  "getActiveNodeCount st = getActiveNodeCount_loop st 0 0"

subsection \<open>Median and validation\<close>

text \<open>
  \<open>_calculateMedian\<close> copies the calldata array into a fresh memory array of the same
  length \<open>n\<close> (zero-initialised), bubble-sorts it in place and reads the middle. The
  length of a memory array is fixed, so the loops take it as \<open>n\<close>. The outer loop bound
  \<open>sortedPrices.length - 1\<close> underflows for the empty array: Panic(0x11). The inner
  bound \<open>n - i - 1\<close> cannot underflow under the outer guard \<open>i < n - 1\<close>.
\<close>

function copy_loop :: "uint256 list \<Rightarrow> uint256 list \<Rightarrow> nat \<Rightarrow> uint256 list" where
  "copy_loop prices sortedPrices i =
     (if i < length prices
      then copy_loop prices (sortedPrices[i := prices ! i]) (i + 1)
      else sortedPrices)"
  by pat_completeness auto
termination
  by (relation "measure (\<lambda>(prices, sortedPrices, i). length prices - i)") auto

function bubble_inner :: "uint256 list \<Rightarrow> nat \<Rightarrow> nat \<Rightarrow> nat \<Rightarrow> uint256 list" where
  "bubble_inner sortedPrices n i j =
     (if j < n - i - 1
      then bubble_inner
             (if sortedPrices ! j > sortedPrices ! (j + 1)
              then (let temp = sortedPrices ! j
                    in (sortedPrices[j := sortedPrices ! (j + 1)])[j + 1 := temp])
              else sortedPrices)
             n i (j + 1)
      else sortedPrices)"
  by pat_completeness auto
termination
  by (relation "measure (\<lambda>(sortedPrices, n, i, j). n - i - 1 - j)") auto

function bubble_outer :: "uint256 list \<Rightarrow> nat \<Rightarrow> nat \<Rightarrow> uint256 list" where
  "bubble_outer sortedPrices n i =
     (if i < n - 1
      then bubble_outer (bubble_inner sortedPrices n i 0) n (i + 1)
      else sortedPrices)"
  by pat_completeness auto
termination
  by (relation "measure (\<lambda>(sortedPrices, n, i). n - 1 - i)") auto

text \<open>
  The loop equations unfold themselves without end on symbolic arguments; they are
  applied by name where an array is given.
\<close>

declare copy_loop.simps [simp del] bubble_inner.simps [simp del] bubble_outer.simps [simp del]

definition calculateMedian :: "uint256 list \<Rightarrow> error + uint256" where
  "calculateMedian prices =
     (let n = length prices;
          copied = copy_loop prices (replicate n 0) 0
      in if n = 0 then Inl PanicArithmetic
         else
           (let sortedPrices = bubble_outer copied n 0;
                mid = n div 2
            in if n mod 2 = 0
               then (case checked_add (sortedPrices ! (mid - 1)) (sortedPrices ! mid) of
                       Inl e \<Rightarrow> Inl e
                     | Inr s \<Rightarrow> Inr (s div 2))
               else Inr (sortedPrices ! mid)))"

definition deviation_of :: "uint256 \<Rightarrow> uint256 \<Rightarrow> error + uint256" where
  "deviation_of newPrice median =
     (let diff = (if newPrice > median then newPrice - median else median - newPrice)
      in case checked_mul diff 10000 of
           Inl e \<Rightarrow> Inl e
         | Inr scaled \<Rightarrow> checked_div scaled median)"

definition validatePrice :: "uint256 \<Rightarrow> uint256 list \<Rightarrow> error + bool" where
  "validatePrice newPrice sourcePrices =
     (if length sourcePrices < MIN_SOURCES then Inr False
      else case calculateMedian sourcePrices of
             Inl e \<Rightarrow> Inl e
           | Inr median \<Rightarrow>
               (case deviation_of newPrice median of
                  Inl e \<Rightarrow> Inl e
                | Inr deviation \<Rightarrow> Inr (deviation \<le> MAX_DEVIATION)))"

subsection \<open>Price updates\<close>

definition updatePrice ::
  "KUSDOracle \<Rightarrow> address \<Rightarrow> uint256 \<Rightarrow> uint256 \<Rightarrow> uint256 list \<Rightarrow> bytes32 list
     \<Rightarrow> error + KUSDOracle" where
  "updatePrice st sender now newPrice sourcePrices sources =
     (if \<not> active (nodes st sender) then Inl NodeNotActive
      else if \<not> newPrice > 0 then Inl InvalidPrice
      else if \<not> length sourcePrices \<ge> MIN_SOURCES then Inl InsufficientSources
      else if \<not> length sourcePrices = length sources then Inl MismatchedArrays
      else case validatePrice newPrice sourcePrices of
             Inl e \<Rightarrow> Inl e
           | Inr ok \<Rightarrow>
               if \<not> ok then Inl PriceValidationFailed
               else Inr (st\<lparr> priceData := \<lparr> price = newPrice, timestamp = now, valid = True \<rparr>,
                             nodes := (nodes st)(sender :=
                                        (nodes st sender)\<lparr> lastUpdate := now \<rparr>) \<rparr>))"

definition emergencyUpdatePrice ::
  "KUSDOracle \<Rightarrow> address \<Rightarrow> uint256 \<Rightarrow> uint256 \<Rightarrow> error + KUSDOracle" where
  "emergencyUpdatePrice st sender now newPrice =
     (if \<not> auth st sender then Inl NotAuthorized
      else if \<not> newPrice > 0 then Inl InvalidPrice
      else Inr (st\<lparr> priceData := \<lparr> price = newPrice, timestamp = now, valid = True \<rparr> \<rparr>))"

definition invalidatePrice :: "KUSDOracle \<Rightarrow> address \<Rightarrow> error + KUSDOracle" where
  "invalidatePrice st sender =
     (if \<not> auth st sender then Inl NotAuthorized
      else Inr (st\<lparr> priceData := (priceData st)\<lparr> valid := False \<rparr> \<rparr>))"

subsection \<open>Transactions\<close>

text \<open>
  A transaction is one external call with its sender and block time. A call that
  reverts leaves the storage as it was.
\<close>

datatype call =
    Rely address
  | Deny address
  | RegisterNode address uint256
  | DeactivateNode address string
  | UpdatePrice uint256 "uint256 list" "bytes32 list"
  | EmergencyUpdatePrice uint256
  | InvalidatePrice

fun exec :: "KUSDOracle \<Rightarrow> address \<Rightarrow> uint256 \<Rightarrow> call \<Rightarrow> error + KUSDOracle" where
  "exec st sender now (Rely usr) = rely st sender usr"
| "exec st sender now (Deny usr) = deny st sender usr"
| "exec st sender now (RegisterNode addr stk) = registerNode st sender addr stk"
| "exec st sender now (DeactivateNode addr reason) = deactivateNode st sender addr reason"
| "exec st sender now (UpdatePrice newPrice sourcePrices sources) =
     updatePrice st sender now newPrice sourcePrices sources"
| "exec st sender now (EmergencyUpdatePrice newPrice) =
     emergencyUpdatePrice st sender now newPrice"
| "exec st sender now InvalidatePrice = invalidatePrice st sender"

fun is_publish :: "call \<Rightarrow> bool" where
  "is_publish (UpdatePrice newPrice sourcePrices sources) = True"
| "is_publish (EmergencyUpdatePrice newPrice) = True"
| "is_publish c = False"

definition transact :: "KUSDOracle \<Rightarrow> address \<times> uint256 \<times> call \<Rightarrow> KUSDOracle" where
  "transact st tx =
     (case tx of (sender, now, c) \<Rightarrow>
        (case exec st sender now c of Inl e \<Rightarrow> st | Inr st' \<Rightarrow> st'))"

fun run :: "KUSDOracle \<Rightarrow> (address \<times> uint256 \<times> call) list \<Rightarrow> KUSDOracle" where
  "run st [] = st"
| "run st (tx # txs) = run (transact st tx) txs"

text \<open>
  \<open>reachable T st\<close>: the storage \<open>st\<close> results from the deployment followed by
  transactions whose block times never decrease, the latest one no later than \<open>T\<close>.
\<close>

inductive reachable :: "uint256 \<Rightarrow> KUSDOracle \<Rightarrow> bool" where
  deployed: "reachable T (constructor a sender)"
| mined: "reachable T st \<Longrightarrow> T \<le> T' \<Longrightarrow> reachable T' (transact st (sender, T', c))"

section \<open>The off-chain oracle node (JavaScript)\<close>

subsection \<open>The retry wrapper of PriceSource\<close>

text \<open>
  \<open>config.retries || 3\<close>: the default applies when the field is missing or falsy (0).
\<close>

record SourceConfig =
  cfg_timeout :: "int option"
  cfg_retries :: "int option"

record PriceSource =
  name :: string
  timeout :: int
  retries :: int

definition or_default :: "int option \<Rightarrow> int \<Rightarrow> int" where
  "or_default v d = (case v of None \<Rightarrow> d | Some x \<Rightarrow> if x = 0 then d else x)"

definition PriceSource_constructor :: "string \<Rightarrow> SourceConfig \<Rightarrow> PriceSource" where
  "PriceSource_constructor nm config =
     \<lparr> name = nm,
       timeout = or_default (cfg_timeout config) 10000,
       retries = or_default (cfg_retries config) 3 \<rparr>"

text \<open>
  \<open>withRetry\<close> calls \<open>fn\<close> once per iteration, so the operation is given as the outcome
  of its \<open>i\<close>-th call: \<open>Inr v\<close> when it returns \<open>v\<close>, \<open>Inl e\<close> when it throws \<open>e\<close>. The
  loop returns the trace of what it did (calls of \<open>fn\<close> and sleeps, in milliseconds)
  and its own outcome: \<open>Inl e\<close> when it throws, \<open>Inr (Some v)\<close> when it returns \<open>v\<close>,
  \<open>Inr None\<close> when the loop ends without a return (\<open>undefined\<close>).
\<close>

datatype event = Call nat | Sleep int

function withRetry_loop ::
  "(nat \<Rightarrow> 'e + 'a) \<Rightarrow> int \<Rightarrow> nat \<Rightarrow> event list \<times> ('e + 'a option)" where
  "withRetry_loop fn rs i =
     (if int i < rs
      then (case fn i of
              Inr v \<Rightarrow> ([Call i], Inr (Some v))
            | Inl e \<Rightarrow>
                if int i = rs - 1 then ([Call i], Inl e)
                else (let (trace, res) = withRetry_loop fn rs (i + 1)
                      in (Call i # Sleep (1000 * (int i + 1)) # trace, res)))
      else ([], Inr None))"
  by pat_completeness auto
termination
  by (relation "measure (\<lambda>(fn, rs, i). nat (rs - int i))") auto

definition withRetry ::
  "PriceSource \<Rightarrow> (nat \<Rightarrow> 'e + 'a) \<Rightarrow> int option \<Rightarrow> event list \<times> ('e + 'a option)" where
  "withRetry this fn rs_arg =
     withRetry_loop fn (case rs_arg of None \<Rightarrow> retries this | Some r \<Rightarrow> r) 0"

fun is_call :: "event \<Rightarrow> bool" where
  "is_call (Call i) = True"
| "is_call (Sleep d) = False"

subsection \<open>Fetching from all sources\<close>






definition Object_prototype_keys :: "string list" where
  "Object_prototype_keys =
     [''constructor'', ''__defineGetter__'', ''__defineSetter__'', ''hasOwnProperty'',
      ''__lookupGetter__'', ''__lookupSetter__'', ''isPrototypeOf'',
      ''propertyIsEnumerable'', ''toString'', ''valueOf'', ''__proto__'',
      ''toLocaleString'']"







subsection \<open>The update cycle and its failure counter\<close>

text \<open>
  \<open>updateAllPrices\<close> runs \<open>updateAssetPrice\<close> for every asset inside a \<open>try\<close>. Only
  whether that call throws matters to the counter, so a cycle is given the predicate
  \<open>ok\<close>: \<open>ok a\<close> when the update of asset \<open>a\<close> returns in this cycle. \<open>alerts\<close> is the
  list of messages passed to \<open>sendAlert\<close> so far.

  \<open>this.failureCount\<close> is a plain object, created as \<open>{}\<close>. Its own properties hold
  what the code assigned: the number 0 or the result of \<open>(failureCount[asset] || 0) + 1\<close>.
  Reading a name that is not an own property finds the member of \<open>Object.prototype\<close>
  of that name, or \<open>undefined\<close>. Such a member is truthy and not a number, so adding 1
  to it concatenates strings; the resulting text is not the text of a number, stays
  so when 1 is added again, and compares as NaN: \<open>>= 5\<close> is false. Assigning a number
  or a string to \<open>__proto__\<close> changes nothing.
\<close>

datatype counter = Number nat | Text

datatype property = Absent | Member | Own counter

record NodeState =
  failureCount :: "string \<rightharpoonup> counter"
  alerts :: "string list"

definition get_property :: "(string \<rightharpoonup> counter) \<Rightarrow> string \<Rightarrow> property" where
  "get_property obj k =
     (case obj k of
        Some v \<Rightarrow> Own v
      | None \<Rightarrow> if k \<in> set Object_prototype_keys then Member else Absent)"

definition set_property ::
  "(string \<rightharpoonup> counter) \<Rightarrow> string \<Rightarrow> counter \<Rightarrow> (string \<rightharpoonup> counter)" where
  "set_property obj k v = (if k = ''__proto__'' then obj else obj(k \<mapsto> v))"

text \<open>\<open>(x || 0) + 1\<close> and \<open>x >= 5\<close> on what a property read returns.\<close>

fun or_zero_plus_one :: "property \<Rightarrow> counter" where
  "or_zero_plus_one Absent = Number 1"
| "or_zero_plus_one (Own (Number k)) = Number (k + 1)"
| "or_zero_plus_one (Own Text) = Text"
| "or_zero_plus_one Member = Text"

fun at_least_5 :: "property \<Rightarrow> bool" where
  "at_least_5 (Own (Number k)) = (k \<ge> 5)"
| "at_least_5 (Own Text) = False"
| "at_least_5 Member = False"
| "at_least_5 Absent = False"

definition alert_message :: "string \<Rightarrow> string" where
  "alert_message a = a @ '' price updates failing repeatedly''"

definition update_round :: "(string \<Rightarrow> bool) \<Rightarrow> string \<Rightarrow> NodeState \<Rightarrow> NodeState" where
  "update_round ok a s =
     (if ok a then s\<lparr> failureCount := set_property (failureCount s) a (Number 0) \<rparr>
      else
        (let c = or_zero_plus_one (get_property (failureCount s) a);
             s' = s\<lparr> failureCount := set_property (failureCount s) a c \<rparr>
         in if at_least_5 (get_property (failureCount s') a)
            then s'\<lparr> alerts := alerts s' @ [alert_message a] \<rparr>
            else s'))"

fun updateAllPrices :: "(string \<Rightarrow> bool) \<Rightarrow> string list \<Rightarrow> NodeState \<Rightarrow> NodeState" where
  "updateAllPrices ok [] s = s"
| "updateAllPrices ok (a # assets) s = updateAllPrices ok assets (update_round ok a s)"

text \<open>The scheduler runs one cycle after the other; \<open>oks\<close> lists the cycles' outcomes.\<close>

fun run_cycles :: "(string \<Rightarrow> bool) list \<Rightarrow> string list \<Rightarrow> NodeState \<Rightarrow> NodeState" where
  "run_cycles [] assets s = s"
| "run_cycles (ok # oks) assets s = run_cycles oks assets (updateAllPrices ok assets s)"

definition initial_state :: NodeState where
  "initial_state = \<lparr> failureCount = Map.empty, alerts = [] \<rparr>"

subsection \<open>JavaScript numbers\<close>

text \<open>
  A JavaScript number is an IEEE 754 double: NaN, an infinity, or a finite value
  \<open>m * 2 ^ e\<close> with \<open>\<bar>m\<bar> < 2 ^ 53\<close> and \<open>- 1074 \<le> e \<le> 971\<close>. The finite values are
  rationals (the sign of zero is not kept). An addition or division returns the exact
  result rounded to the nearest double, a tie going to the even significand, and an
  infinity when the rounded magnitude reaches \<open>2 ^ 1024\<close>. \<open>to_double\<close> is that
  rounding: the unit in the last place of \<open>x\<close> is \<open>2 ^ e\<close> with
  \<open>e = max (- 1074) (\<lfloor>log\<^sub>2 \<bar>x\<bar>\<rfloor> - 52)\<close>.
\<close>

datatype number = Num rat | PosInfinity | NegInfinity | NaN

definition pow2 :: "int \<Rightarrow> rat" where
  "pow2 e = (if 0 \<le> e then 2 ^ nat e else 1 / 2 ^ nat (- e))"

function ilog2 :: "int \<Rightarrow> int" where
  "ilog2 n = (if n < 2 then 0 else ilog2 (n div 2) + 1)"
  by pat_completeness auto
termination
  by (relation "measure (\<lambda>n. nat n)") auto

declare ilog2.simps [simp del]

definition floor_log2 :: "rat \<Rightarrow> int" where
  "floor_log2 x =
     (case quotient_of x of (p, q) \<Rightarrow>
        (let k = ilog2 p - ilog2 q
         in if pow2 k \<le> x then k else k - 1))"

definition round_half_even :: "rat \<Rightarrow> int" where
  "round_half_even x =
     (let f = \<lfloor>x\<rfloor>; d = x - of_int f
      in if d < 1 / 2 then f
         else if 1 / 2 < d then f + 1
         else if even f then f else f + 1)"

definition double_limit :: rat where
  "double_limit = 179769313486231590772930519078902473361797697894230657273430081157732675805500963132708477322407536021120113879871393357658789768814416622492847430639474124377767893424865485276302219601246094119453082952085005768838150682342462881473913110540827237163350510684586298239947245938479716304835356329624224137216"

definition to_double :: "rat \<Rightarrow> number" where
  "to_double x =
     (if x = 0 then Num 0
      else
        (let e = max (- 1074) (floor_log2 \<bar>x\<bar> - 52);
             r = of_int (round_half_even (x / pow2 e)) * pow2 e
         in if double_limit \<le> r then PosInfinity
            else if r \<le> - double_limit then NegInfinity
            else Num r))"

fun halve :: "number \<Rightarrow> number" where
  "halve (Num r) = to_double (r / 2)"
| "halve PosInfinity = PosInfinity"
| "halve NegInfinity = NegInfinity"
| "halve NaN = NaN"

subsection \<open>The off-chain median\<close>

text \<open>
  \<open>OracleNode.calculateMedian\<close> on an array of finite numbers. The comparator
  \<open>(a, b) => a - b\<close> orders finite numbers by value. On the empty array the code adds
  two \<open>undefined\<close> and returns NaN.
\<close>

definition OracleNode_calculateMedian :: "rat list \<Rightarrow> number" where
  "OracleNode_calculateMedian prices =
     (let sorted = sort prices;
          mid = length sorted div 2
      in if length sorted mod 2 = 0
         then (if sorted = [] then NaN
               else halve (to_double (sorted ! (mid - 1) + sorted ! mid)))
         else Num (sorted ! mid))"


section \<open>Reference definitions\<close>

text \<open>
  The median and the deviation in basis points as the specification words them, on
  natural numbers: sort ascending; the middle element for an odd count, the mean of
  the two middle elements (rounded down) for an even count.
\<close>

definition median_nat :: "nat list \<Rightarrow> nat" where
  "median_nat xs =
     (let s = sort xs; mid = length xs div 2
      in if even (length xs) then (s ! (mid - 1) + s ! mid) div 2 else s ! mid)"

definition deviationBp :: "nat \<Rightarrow> nat \<Rightarrow> nat" where
  "deviationBp v m = (if v > m then v - m else m - v) * 10000 div m"

text \<open>
  What one call of \<open>withRetry\<close> does when attempts \<open>i\<close> to \<open>k - 1\<close> fail and attempt
  \<open>k\<close> ends it: each failed attempt \<open>j\<close> is followed by a sleep of \<open>1000 * (j + 1)\<close> ms.
  \<open>effective_retries\<close> is the value of the parameter \<open>retries = this.retries\<close>.
\<close>

definition attempt_trace :: "nat \<Rightarrow> nat \<Rightarrow> event list" where
  "attempt_trace i k =
     concat (map (\<lambda>j. [Call j, Sleep (1000 * (int j + 1))]) [i..<k]) @ [Call k]"

definition effective_retries :: "PriceSource \<Rightarrow> int option \<Rightarrow> int" where
  "effective_retries this rs_arg = (case rs_arg of None \<Rightarrow> retries this | Some r \<Rightarrow> r)"



text \<open>
  The failure count of an asset where its counter is a number (0 where the asset has
  no counter yet), the condition that the counter of an asset is a number or not yet
  there, and the number of alerts sent for an asset so far.
\<close>

definition count_of :: "NodeState \<Rightarrow> string \<Rightarrow> nat" where
  "count_of s a =
     (case get_property (failureCount s) a of Own (Number k) \<Rightarrow> k | _ \<Rightarrow> 0)"

definition numeric_counter :: "NodeState \<Rightarrow> string \<Rightarrow> bool" where
  "numeric_counter s a =
     (a \<notin> set Object_prototype_keys \<and> failureCount s a \<noteq> Some Text)"

definition alert_count :: "NodeState \<Rightarrow> string \<Rightarrow> nat" where
  "alert_count s a = count_list (alerts s) (alert_message a)"

text \<open>
  The sum of the two middle elements, the distance of a value from the median, and
  the condition under which the contract's checked arithmetic computes the deviation:
  the sum of the two middle elements (for an even count) and the distance times 10000
  fit in 256 bits, and the median is not zero.
\<close>

definition middle_sum :: "nat list \<Rightarrow> nat" where
  "middle_sum xs = (let s = sort xs; mid = length xs div 2 in s ! (mid - 1) + s ! mid)"

definition distance :: "nat \<Rightarrow> nat \<Rightarrow> nat" where
  "distance v m = (if v > m then v - m else m - v)"

definition deviation_defined :: "nat \<Rightarrow> nat list \<Rightarrow> bool" where
  "deviation_defined v xs =
     ((even (length xs) \<longrightarrow> middle_sum xs < 2 ^ 256) \<and>
      median_nat xs \<noteq> 0 \<and>
      distance v (median_nat xs) * 10000 < 2 ^ 256)"

text \<open>
  The condition under which that arithmetic leaves 256 bits: the sum of the two
  middle elements does (for an even count), or the distance times 10000 does.
\<close>

definition arithmetic_overflows :: "nat \<Rightarrow> nat list \<Rightarrow> bool" where
  "arithmetic_overflows v xs =
     ((even (length xs) \<and> \<not> middle_sum xs < 2 ^ 256) \<or>
      \<not> distance v (median_nat xs) * 10000 < 2 ^ 256)"

text \<open>The storage after a successful \<open>updatePrice\<close>.\<close>

definition stored :: "KUSDOracle \<Rightarrow> address \<Rightarrow> uint256 \<Rightarrow> uint256 \<Rightarrow> KUSDOracle" where
  "stored st sender now newPrice =
     st\<lparr> priceData := \<lparr> price = newPrice, timestamp = now, valid = True \<rparr>,
         nodes := (nodes st)(sender := (nodes st sender)\<lparr> lastUpdate := now \<rparr>) \<rparr>"

section \<open>Sample inputs\<close>

text \<open>
  A deployment by address 1 at which address 5 is a registered, active node, and the
  same after node 5 published 50000 at block time 1000.
\<close>

definition publisher_state :: KUSDOracle where
  "publisher_state = transact (constructor 0 1) (1, 100, RegisterNode 5 1000)"

definition published_state :: KUSDOracle where
  "published_state =
     transact publisher_state (5, 1000, UpdatePrice 50000 [49900, 50000, 50100] [1, 2, 3])"

text \<open>
  Address 5 registered, deactivated and registered again by the deployer.
\<close>

definition reregistered_state :: KUSDOracle where
  "reregistered_state =
     run (constructor 0 1)
        [(1, 100, RegisterNode 5 1000), (1, 200, DeactivateNode 5 ''Test''),
         (1, 300, RegisterNode 5 1000)]"


definition all_fail :: "string \<Rightarrow> bool" where
  "all_fail a = False"

definition all_succeed :: "string \<Rightarrow> bool" where
  "all_succeed a = True"

text \<open>
  A source with the default configuration, an operation that always times out and
  one that returns on its second call.
\<close>

definition kraken :: PriceSource where
  "kraken = PriceSource_constructor ''Kraken'' \<lparr> cfg_timeout = None, cfg_retries = None \<rparr>"

definition always_timeout :: "nat \<Rightarrow> string + rat" where
  "always_timeout i = Inl ''ETIMEDOUT''"

definition second_try :: "nat \<Rightarrow> string + rat" where
  "second_try i = (if i = 1 then Inr 50000 else Inl ''ETIMEDOUT'')"

text \<open>A source price of \<open>2 ^ 255\<close>.\<close>

definition huge :: uint256 where
  "huge = 57896044618658097711785492504343953926634992332820282019728792003956564819968"

section \<open>Properties of the contract\<close>

subsection \<open>Sample states\<close>

lemma publisher_state_simps:
  "active (nodes publisher_state 5)"
  "\<not> active (nodes publisher_state 7)"
  "wards publisher_state 1 = 1"
  "priceData publisher_state = \<lparr> price = 0, timestamp = 0, valid = False \<rparr>"
  by (simp_all add: publisher_state_def transact_def registerNode_def constructor_def
        auth_def)

lemmas loop_simps = copy_loop.simps bubble_inner.simps bubble_outer.simps

lemma published_state_simps:
  "priceData published_state = \<lparr> price = 50000, timestamp = 1000, valid = True \<rparr>"
  "wards published_state 1 = 1"
  by (simp_all add: published_state_def transact_def updatePrice_def publisher_state_simps
        MIN_SOURCES_def validatePrice_def calculateMedian_def deviation_of_def
        checked_mul_def checked_div_def MAX_DEVIATION_def loop_simps)

lemma reregistered_state_simps:
  "nodeList reregistered_state = [5, 5]"
  "active (nodes reregistered_state a) = (a = 5)"
  by (simp_all add: reregistered_state_def transact_def registerNode_def deactivateNode_def
        constructor_def auth_def)

lemma calculateMedian_sample: "calculateMedian [49900, 50000, 50100] = Inr 50000"
  by (simp add: calculateMedian_def loop_simps)

lemma updatePrice_sample:
  "updatePrice publisher_state 5 1000 50000 [49900, 50000, 50100] [1, 2, 3]
     = Inr published_state"
  by (simp add: published_state_def transact_def updatePrice_def publisher_state_simps
        MIN_SOURCES_def validatePrice_def calculateMedian_sample deviation_of_def
        checked_mul_def checked_div_def MAX_DEVIATION_def)

lemma reachable_published_state: "reachable 1000 published_state"
proof -
  have "reachable 0 (constructor 0 1)" by (rule reachable.deployed)
  then have "reachable 100 publisher_state"
    unfolding publisher_state_def by (rule reachable.mined) simp
  then show ?thesis
    unfolding published_state_def by (rule reachable.mined) simp
qed

subsection \<open>Freshness\<close>

lemma transact_timestamp_le:
  assumes "timestamp (priceData st) \<le> T" "T \<le> T'"
  shows "timestamp (priceData (transact st (sender, T', c))) \<le> T'"
proof -
  from assms have le: "timestamp (priceData st) \<le> T'" by simp
  show ?thesis
    using le
    by (cases c)
       (auto simp: transact_def rely_def deny_def registerNode_def deactivateNode_def
          updatePrice_def emergencyUpdatePrice_def invalidatePrice_def
          split: sum.splits if_splits)
qed

lemma reachable_timestamp_le: "reachable T st \<Longrightarrow> timestamp (priceData st) \<le> T"
proof (induction rule: reachable.induct)
  case (deployed T a sender)
  show ?case by (simp add: constructor_def)
next
  case (mined T st T' sender c)
  from mined.IH mined.hyps(2) show ?case by (rule transact_timestamp_le)
qed

lemma isFresh_eq:
  "timestamp (priceData st) \<le> now \<Longrightarrow>
   isFresh st now = Inr (unat now - unat (timestamp (priceData st)) \<le> 3600)"
  by (simp add: isFresh_def checked_sub_def STALENESS_THRESHOLD_def word_le_nat_alt
        unat_sub not_less)

lemma transact_quiet_timestamp:
  "\<not> is_publish c \<Longrightarrow>
   timestamp (priceData (transact st (sender, T, c))) = timestamp (priceData st)"
  by (cases c)
     (auto simp: transact_def rely_def deny_def registerNode_def deactivateNode_def
        invalidatePrice_def split: sum.splits if_splits)

lemma run_quiet_timestamp:
  "\<forall>tx \<in> set txs. \<not> is_publish (snd (snd tx)) \<Longrightarrow>
   timestamp (priceData (run st txs)) = timestamp (priceData st)"
proof (induction txs arbitrary: st)
  case Nil
  show ?case by simp
next
  case (Cons tx txs)
  obtain sender T c where tx: "tx = (sender, T, c)" by (cases tx) auto
  from Cons.prems have q: "\<not> is_publish c" by (simp add: tx)
  from Cons.prems have rest: "\<forall>tx \<in> set txs. \<not> is_publish (snd (snd tx))" by simp
  show ?case
    using Cons.IH [OF rest] transact_quiet_timestamp [OF q] by (simp add: tx)
qed

lemma updatePrice_timestamp:
  "updatePrice st sender t p sp ss = Inr st' \<Longrightarrow> timestamp (priceData st') = t"
  by (auto simp: updatePrice_def split: if_splits sum.splits)

text \<open>
  C4. In every state the contract can reach, \<open>isFresh\<close> at a block time \<open>now\<close> returns
  exactly whether \<open>now - timestamp \<le> 3600\<close>. It is true at the block of a successful
  \<open>updatePrice\<close>, and after any transactions that do not publish it is true exactly
  while at most 3600 seconds have passed since that block: no invalidation is needed
  for it to become false.
\<close>

theorem isFresh_exact:
  "(reachable T s \<and> T \<le> now \<longrightarrow>
      isFresh s now = Inr (unat now - unat (timestamp (priceData s)) \<le> 3600)) \<and>
   (updatePrice st sender t p sp ss = Inr st' \<longrightarrow> isFresh st' t = Inr True) \<and>
   (updatePrice st sender t p sp ss = Inr st' \<and>
      (\<forall>tx \<in> set txs. \<not> is_publish (snd (snd tx))) \<and> t \<le> t' \<longrightarrow>
      isFresh (run st' txs) t' = Inr (unat t' - unat t \<le> 3600))"
proof (intro conjI impI)
  assume "reachable T s \<and> T \<le> now"
  then have "timestamp (priceData s) \<le> now"
    using reachable_timestamp_le [of T s] by auto
  then show "isFresh s now = Inr (unat now - unat (timestamp (priceData s)) \<le> 3600)"
    by (rule isFresh_eq)
next
  assume "updatePrice st sender t p sp ss = Inr st'"
  then have "timestamp (priceData st') = t" by (rule updatePrice_timestamp)
  then show "isFresh st' t = Inr True"
    using isFresh_eq [of st' t] by simp
next
  assume a: "updatePrice st sender t p sp ss = Inr st' \<and>
      (\<forall>tx \<in> set txs. \<not> is_publish (snd (snd tx))) \<and> t \<le> t'"
  then have "timestamp (priceData st') = t" by (auto dest: updatePrice_timestamp)
  with a have ts: "timestamp (priceData (run st' txs)) = t"
    using run_quiet_timestamp [of txs st'] by simp
  with a show "isFresh (run st' txs) t' = Inr (unat t' - unat t \<le> 3600)"
    using isFresh_eq [of "run st' txs" t'] by simp
qed

theorem isFresh_exact_witness:
  "isFresh published_state 4600 = Inr True \<and>
   isFresh published_state 4601 = Inr False \<and>
   isFresh published_state 1000 = Inr True \<and>
   isFresh (run published_state [(1, 2000, InvalidatePrice)]) 4601 = Inr False"
proof -
  have a: "reachable 1000 published_state \<and> (1000 :: uint256) \<le> 4600"
    using reachable_published_state by simp
  have b: "reachable 1000 published_state \<and> (1000 :: uint256) \<le> 4601"
    using reachable_published_state by simp
  have ts: "timestamp (priceData published_state) = 1000"
    using updatePrice_sample by (rule updatePrice_timestamp)
  have q: "updatePrice publisher_state 5 1000 50000 [49900, 50000, 50100] [1, 2, 3]
             = Inr published_state \<and>
           (\<forall>tx \<in> set [(1 :: address, 2000 :: uint256, InvalidatePrice)].
              \<not> is_publish (snd (snd tx))) \<and> (1000 :: uint256) \<le> 4601"
    using updatePrice_sample by simp
  from isFresh_exact [where T = 1000 and s = published_state and now = 4600] a
  have 1: "isFresh published_state 4600 = Inr True" by (simp add: ts)
  from isFresh_exact [where T = 1000 and s = published_state and now = 4601] b
  have 2: "isFresh published_state 4601 = Inr False" by (simp add: ts)
  from isFresh_exact [where st = publisher_state and sender = 5 and t = 1000
      and p = 50000 and sp = "[49900, 50000, 50100]" and ss = "[1, 2, 3]"
      and st' = published_state] updatePrice_sample
  have 3: "isFresh published_state 1000 = Inr True" by simp
  from isFresh_exact [where st = publisher_state and sender = 5 and t = 1000
      and p = 50000 and sp = "[49900, 50000, 50100]" and ss = "[1, 2, 3]"
      and st' = published_state and txs = "[(1, 2000, InvalidatePrice)]"
      and t' = 4601] q
  have 4: "isFresh (run published_state [(1, 2000, InvalidatePrice)]) 4601 = Inr False"
    by simp
  from 1 2 3 4 show ?thesis by simp
qed

subsection \<open>Invalidation\<close>

text \<open>
  C5. A call of \<open>invalidatePrice\<close> by a ward succeeds and sets the stored \<open>valid\<close> flag
  to false; the stored price and timestamp stay as they were, so \<open>getPriceData\<close>
  afterwards returns the price and timestamp held before, with \<open>valid = false\<close>.
\<close>

theorem invalidatePrice_frame:
  "auth st sender \<Longrightarrow>
   (\<exists>st'. invalidatePrice st sender = Inr st' \<and>
      valid (priceData st') = False \<and>
      price (priceData st') = price (priceData st) \<and>
      timestamp (priceData st') = timestamp (priceData st) \<and>
      getPriceData st' = (price (priceData st), timestamp (priceData st), False))"
  by (simp add: invalidatePrice_def getPriceData_def)

theorem invalidatePrice_frame_witness:
  "auth published_state 1 \<and>
   (\<exists>st'. invalidatePrice published_state 1 = Inr st' \<and>
      getPriceData st' = (50000, 1000, False))"
proof -
  have h: "auth published_state 1" by (simp add: auth_def published_state_simps)
  from invalidatePrice_frame [OF h] obtain st' where
    inv: "invalidatePrice published_state 1 = Inr st'" and
    got: "getPriceData st' =
            (price (priceData published_state), timestamp (priceData published_state), False)"
    by blast
  from got have "getPriceData st' = (50000, 1000, False)"
    by (simp add: published_state_simps)
  with inv have "\<exists>st'. invalidatePrice published_state 1 = Inr st' \<and>
      getPriceData st' = (50000, 1000, False)" by blast
  with h show ?thesis by (rule conjI)
qed

text \<open>
  C10. \<open>isFresh\<close> reads the stored timestamp only: two states with the same timestamp
  get the same answer, whatever their \<open>valid\<close> flags. So while no more than the
  staleness threshold has passed since the last write, \<open>isFresh\<close> is still true after
  a ward has called \<open>invalidatePrice\<close>, and \<open>peek\<close> in that state reports the price as
  not valid.
\<close>

theorem isFresh_ignores_valid:
  "(timestamp (priceData a) = timestamp (priceData b) \<longrightarrow>
      isFresh a now = isFresh b now) \<and>
   (auth st sender \<and> timestamp (priceData st) \<le> now \<and>
      unat now - unat (timestamp (priceData st)) \<le> 3600 \<longrightarrow>
      (\<exists>st'. invalidatePrice st sender = Inr st' \<and>
         valid (priceData st') = False \<and>
         isFresh st' now = Inr True \<and>
         peek st' now = Inr (price (priceData st), False)))"
proof (intro conjI impI)
  assume "timestamp (priceData a) = timestamp (priceData b)"
  then show "isFresh a now = isFresh b now" by (simp add: isFresh_def)
next
  assume h: "auth st sender \<and> timestamp (priceData st) \<le> now \<and>
      unat now - unat (timestamp (priceData st)) \<le> 3600"
  let ?st' = "st\<lparr> priceData := (priceData st)\<lparr> valid := False \<rparr> \<rparr>"
  from h have inv: "invalidatePrice st sender = Inr ?st'"
    by (simp add: invalidatePrice_def)
  from h have "isFresh ?st' now = Inr True"
    using isFresh_eq [of ?st' now] by simp
  moreover from h have "peek ?st' now = Inr (price (priceData st), False)"
    by (simp add: peek_def checked_sub_def not_less)
  ultimately show "\<exists>st'. invalidatePrice st sender = Inr st' \<and>
         valid (priceData st') = False \<and>
         isFresh st' now = Inr True \<and>
         peek st' now = Inr (price (priceData st), False)"
    using inv by simp
qed

theorem isFresh_ignores_valid_witness:
  "isFresh (published_state\<lparr> priceData :=
              (priceData published_state)\<lparr> valid := False \<rparr> \<rparr>) 2000
     = isFresh published_state 2000 \<and>
   (\<exists>st'. invalidatePrice published_state 1 = Inr st' \<and>
      valid (priceData st') = False \<and>
      isFresh st' 2000 = Inr True \<and>
      peek st' 2000 = Inr (50000, False))"
proof -
  let ?inv = "published_state\<lparr> priceData :=
                (priceData published_state)\<lparr> valid := False \<rparr> \<rparr>"
  have h: "auth published_state 1 \<and> timestamp (priceData published_state) \<le> 2000 \<and>
      unat (2000 :: uint256) - unat (timestamp (priceData published_state)) \<le> 3600"
    by (simp add: auth_def published_state_simps)
  have e: "timestamp (priceData ?inv) = timestamp (priceData published_state)"
    by simp
  note inst = isFresh_ignores_valid [where a = ?inv and b = published_state and now = 2000
      and st = published_state and sender = 1]
  from inst have "timestamp (priceData ?inv) = timestamp (priceData published_state) \<longrightarrow>
      isFresh ?inv 2000 = isFresh published_state 2000" by (rule conjunct1)
  with e have 1: "isFresh ?inv 2000 = isFresh published_state 2000" by (rule rev_mp)
  from inst have "auth published_state 1 \<and> timestamp (priceData published_state) \<le> 2000 \<and>
      unat (2000 :: uint256) - unat (timestamp (priceData published_state)) \<le> 3600 \<longrightarrow>
      (\<exists>st'. invalidatePrice published_state 1 = Inr st' \<and>
         valid (priceData st') = False \<and>
         isFresh st' 2000 = Inr True \<and>
         peek st' 2000 = Inr (price (priceData published_state), False))"
    by (rule conjunct2)
  with h have "\<exists>st'. invalidatePrice published_state 1 = Inr st' \<and>
         valid (priceData st') = False \<and>
         isFresh st' 2000 = Inr True \<and>
         peek st' 2000 = Inr (price (priceData published_state), False)"
    by (rule rev_mp)
  moreover have "price (priceData published_state) = 50000"
    by (simp add: published_state_simps)
  ultimately have 2: "\<exists>st'. invalidatePrice published_state 1 = Inr st' \<and>
      valid (priceData st') = False \<and>
      isFresh st' 2000 = Inr True \<and>
      peek st' 2000 = Inr (50000, False)" by simp
  from 1 2 show ?thesis by (rule conjI)
qed

subsection \<open>Counting active nodes\<close>

text \<open>
  C9. After address 5 is registered, deactivated and registered again, exactly one
  address has an active node record, and \<open>getActiveNodeCount\<close> returns 2: the second
  registration pushed the address onto \<open>nodeList\<close> once more.
\<close>

theorem getActiveNodeCount_reregistered:
  "getActiveNodeCount reregistered_state = 2 \<and>
   card {a. active (nodes reregistered_state a)} = 1"
  by (simp add: getActiveNodeCount_def reregistered_state_simps)

subsection \<open>Division by the median\<close>

text \<open>
  C8. An active node submits a positive price with three source prices that are all
  zero, and three source names. Every \<open>require\<close> before the validation passes, the
  median is 0, and the deviation divides by it: the call reverts with Panic(0x12).
\<close>

theorem updatePrice_zero_median_panics:
  "active (nodes publisher_state 5) \<and> (50000 :: uint256) > 0 \<and>
   length [0, 0, 0 :: uint256] \<ge> MIN_SOURCES \<and>
   length [0, 0, 0 :: uint256] = length [1, 2, 3 :: bytes32] \<and>
   calculateMedian [0, 0, 0] = Inr 0 \<and>
   updatePrice publisher_state 5 1000 50000 [0, 0, 0] [1, 2, 3] = Inl PanicDivisionByZero"
  by (simp add: updatePrice_def publisher_state_simps MIN_SOURCES_def validatePrice_def
        calculateMedian_def deviation_of_def checked_mul_def checked_div_def
        copy_loop.simps bubble_inner.simps bubble_outer.simps)

section \<open>Properties of the off-chain node\<close>

subsection \<open>The retry wrapper\<close>

lemma attempt_trace_step:
  "i < k \<Longrightarrow>
   attempt_trace i k = Call i # Sleep (1000 * (int i + 1)) # attempt_trace (Suc i) k"
  by (simp add: attempt_trace_def upt_conv_Cons)

lemma attempt_trace_same: "attempt_trace k k = [Call k]"
  by (simp add: attempt_trace_def)

lemma loop_calls_le:
  "length (filter is_call (fst (withRetry_loop fn rs i))) \<le> nat (rs - int i)"
proof (induction fn rs i rule: withRetry_loop.induct)
  case (1 fn rs i)
  show ?case
  proof (cases "int i < rs")
    case False
    then show ?thesis by simp
  next
    case True
    show ?thesis
    proof (cases "fn i")
      case (Inr v)
      with True show ?thesis by simp
    next
      case (Inl e)
      show ?thesis
      proof (cases "int i = rs - 1")
        case True
        with Inl show ?thesis by simp
      next
        case False
        from "1.IH" [OF True Inl False]
        have "length (filter is_call (fst (withRetry_loop fn rs (i + 1))))
                \<le> nat (rs - int (i + 1))" .
        with True Inl False show ?thesis
          by (simp add: split_beta)
      qed
    qed
  qed
qed

lemma loop_succeeds_at:
  "i \<le> k \<Longrightarrow> int k < rs \<Longrightarrow> \<forall>j. i \<le> j \<and> j < k \<longrightarrow> isl (fn j) \<Longrightarrow> fn k = Inr v \<Longrightarrow>
   withRetry_loop fn rs i = (attempt_trace i k, Inr (Some v))"
proof (induction "k - i" arbitrary: i)
  case 0
  then have "i = k" by simp
  with 0 show ?case by (simp add: attempt_trace_same)
next
  case (Suc d)
  then have lt: "i < k" by simp
  with Suc.prems obtain e where e: "fn i = Inl e" by (cases "fn i") auto
  from Suc.hyps(2) have d: "d = k - Suc i" by simp
  from Suc.prems lt have "\<forall>j. Suc i \<le> j \<and> j < k \<longrightarrow> isl (fn j)" by auto
  from Suc.hyps(1) [OF d _ Suc.prems(2) this Suc.prems(4)] lt
  have "withRetry_loop fn rs (Suc i) = (attempt_trace (Suc i) k, Inr (Some v))" by simp
  with lt Suc.prems(2) e show ?case
    by (simp add: attempt_trace_step)
qed

lemma loop_all_fail:
  "int i < rs \<Longrightarrow> \<forall>j. i \<le> j \<and> int j < rs \<longrightarrow> isl (fn j) \<Longrightarrow>
   withRetry_loop fn rs i =
     (attempt_trace i (nat rs - 1), Inl (projl (fn (nat rs - 1))))"
proof (induction "nat rs - 1 - i" arbitrary: i)
  case 0
  then have i: "i = nat rs - 1" "int i = rs - 1" by auto
  with 0 obtain e where e: "fn i = Inl e" by (cases "fn i") auto
  with 0 i show ?case
    by (simp add: attempt_trace_same)
next
  case (Suc d)
  then have lt: "i < nat rs - 1" by simp
  then have lt': "int (Suc i) < rs" "int i \<noteq> rs - 1" by auto
  from Suc.prems obtain e where e: "fn i = Inl e" by (cases "fn i") auto
  from Suc.hyps(2) have d: "d = nat rs - 1 - Suc i" by simp
  from Suc.prems have "\<forall>j. Suc i \<le> j \<and> int j < rs \<longrightarrow> isl (fn j)" by auto
  from Suc.hyps(1) [OF d lt'(1) this]
  have "withRetry_loop fn rs (Suc i) =
     (attempt_trace (Suc i) (nat rs - 1), Inl (projl (fn (nat rs - 1))))" .
  with lt lt' Suc.prems(1) e show ?case
    by (simp add: attempt_trace_step)
qed

subsection \<open>Fetching from all sources\<close>









subsection \<open>The failure counter\<close>

lemma alert_message_inj: "alert_message a = alert_message b \<longleftrightarrow> a = b"
  by (simp add: alert_message_def)

lemma numeric_cases:
  assumes "numeric_counter s a"
  shows "a \<noteq> ''__proto__''"
    and "get_property (failureCount s) a = Absent \<and> count_of s a = 0 \<or>
         get_property (failureCount s) a = Own (Number (count_of s a))"
proof -
  from assms have n: "a \<notin> set Object_prototype_keys" and t: "failureCount s a \<noteq> Some Text"
    by (simp_all add: numeric_counter_def)
  from n show "a \<noteq> ''__proto__''" by (auto simp: Object_prototype_keys_def)
  show "get_property (failureCount s) a = Absent \<and> count_of s a = 0 \<or>
         get_property (failureCount s) a = Own (Number (count_of s a))"
  proof (cases "failureCount s a")
    case None
    with n show ?thesis by (simp add: get_property_def count_of_def)
  next
    case (Some v)
    with t obtain k where "v = Number k" by (cases v) auto
    with Some show ?thesis by (simp add: get_property_def count_of_def)
  qed
qed

lemma update_round_other:
  "a \<noteq> b \<Longrightarrow> failureCount (update_round ok b s) a = failureCount s a"
  "a \<noteq> b \<Longrightarrow> alert_count (update_round ok b s) a = alert_count s a"
  by (simp_all add: update_round_def alert_count_def Let_def alert_message_inj
        set_property_def)

lemma get_set_same:
  "a \<noteq> ''__proto__'' \<Longrightarrow> get_property (set_property obj a v) a = Own v"
  by (simp add: get_property_def set_property_def)

lemma next_count:
  assumes "numeric_counter s a"
  shows "or_zero_plus_one (get_property (failureCount s) a) = Number (count_of s a + 1)"
  using numeric_cases(2) [OF assms] by auto

lemma update_round_succeeds:
  assumes "numeric_counter s a" "ok a"
  shows "get_property (failureCount (update_round ok a s)) a = Own (Number 0)"
    and "alerts (update_round ok a s) = alerts s"
  using assms(2) numeric_cases(1) [OF assms(1)]
  by (simp_all add: update_round_def get_set_same)

lemma update_round_fails:
  assumes "numeric_counter s a" "\<not> ok a"
  shows "get_property (failureCount (update_round ok a s)) a = Own (Number (count_of s a + 1))"
    and "alerts (update_round ok a s) =
           (if 5 \<le> count_of s a + 1 then alerts s @ [alert_message a] else alerts s)"
  using assms(2) numeric_cases(1) [OF assms(1)] next_count [OF assms(1)]
  by (simp_all add: update_round_def get_set_same Let_def)

lemma update_round_numeric:
  "numeric_counter s a \<Longrightarrow> numeric_counter (update_round ok b s) a"
proof (cases "a = b")
  case False
  assume "numeric_counter s a"
  with False show ?thesis
    by (simp add: numeric_counter_def update_round_other)
next
  case True
  assume n: "numeric_counter s a"
  show ?thesis
  proof (cases "ok a")
    case ok: True
    from update_round_succeeds(1) [where ok = ok, OF n] ok n True show ?thesis
      by (auto simp: numeric_counter_def get_property_def split: option.splits)
  next
    case nok: False
    from update_round_fails(1) [where ok = ok, OF n] nok n True show ?thesis
      by (auto simp: numeric_counter_def get_property_def split: option.splits)
  qed
qed

lemma update_round_self:
  assumes "numeric_counter s a"
  shows "count_of (update_round ok a s) a = (if ok a then 0 else count_of s a + 1)"
    and "alert_count (update_round ok a s) a =
     alert_count s a + (if \<not> ok a \<and> 5 \<le> count_of s a + 1 then 1 else 0)"
proof -
  show "count_of (update_round ok a s) a = (if ok a then 0 else count_of s a + 1)"
    using update_round_succeeds(1) [where ok = ok, OF assms]
      update_round_fails(1) [where ok = ok, OF assms]
    by (cases "ok a") (simp_all add: count_of_def)
  show "alert_count (update_round ok a s) a =
     alert_count s a + (if \<not> ok a \<and> 5 \<le> count_of s a + 1 then 1 else 0)"
    using update_round_succeeds(2) [where ok = ok, OF assms]
      update_round_fails(2) [where ok = ok, OF assms]
    by (cases "ok a") (simp_all add: alert_count_def)
qed

lemma count_of_other:
  "a \<noteq> b \<Longrightarrow> count_of (update_round ok b s) a = count_of s a"
  by (simp add: count_of_def get_property_def update_round_other)

lemma updateAllPrices_other:
  "a \<notin> set assets \<Longrightarrow>
   failureCount (updateAllPrices ok assets s) a = failureCount s a \<and>
   alert_count (updateAllPrices ok assets s) a = alert_count s a"
proof (induction assets arbitrary: s)
  case Nil
  show ?case by simp
next
  case (Cons b assets)
  then have "a \<noteq> b" "a \<notin> set assets" by auto
  with Cons.IH [of "update_round ok b s"] show ?case
    by (simp add: update_round_other)
qed

lemma updateAllPrices_numeric:
  "numeric_counter s a \<Longrightarrow> numeric_counter (updateAllPrices ok assets s) a"
  by (induction assets arbitrary: s) (simp_all add: update_round_numeric)

lemma run_cycles_numeric:
  "numeric_counter s a \<Longrightarrow> numeric_counter (run_cycles oks assets s) a"
  by (induction oks arbitrary: s) (simp_all add: updateAllPrices_numeric)

lemma updateAllPrices_self:
  "distinct assets \<Longrightarrow> a \<in> set assets \<Longrightarrow> numeric_counter s a \<Longrightarrow>
   count_of (updateAllPrices ok assets s) a = (if ok a then 0 else count_of s a + 1) \<and>
   alert_count (updateAllPrices ok assets s) a =
     alert_count s a + (if \<not> ok a \<and> 5 \<le> count_of s a + 1 then 1 else 0)"
proof (induction assets arbitrary: s)
  case Nil
  then show ?case by simp
next
  case (Cons b assets)
  show ?case
  proof (cases "a = b")
    case True
    with Cons.prems have "a \<notin> set assets" by simp
    from updateAllPrices_other [OF this, of ok "update_round ok b s"]
    have "count_of (updateAllPrices ok assets (update_round ok b s)) a
            = count_of (update_round ok b s) a"
      and "alert_count (updateAllPrices ok assets (update_round ok b s)) a
            = alert_count (update_round ok b s) a"
      by (simp_all add: count_of_def get_property_def)
    with True update_round_self [where ok = ok, OF Cons.prems(3)] show ?thesis by simp
  next
    case False
    with Cons.prems have d: "distinct assets" and m: "a \<in> set assets" by auto
    from Cons.prems(3) have n: "numeric_counter (update_round ok b s) a"
      by (rule update_round_numeric)
    from Cons.IH [OF d m n] False
    show ?thesis by (simp add: update_round_other count_of_other)
  qed
qed

lemma run_cycles_failing:
  "distinct assets \<Longrightarrow> a \<in> set assets \<Longrightarrow> numeric_counter s a \<Longrightarrow>
   \<forall>ok \<in> set oks. \<not> ok a \<Longrightarrow>
   count_of (run_cycles oks assets s) a = count_of s a + length oks \<and>
   alert_count (run_cycles oks assets s) a =
     alert_count s a + ((count_of s a + length oks - 4) - (count_of s a - 4))"
proof (induction oks arbitrary: s)
  case Nil
  show ?case by simp
next
  case (Cons ok oks)
  let ?s = "updateAllPrices ok assets s"
  from Cons.prems have f: "\<not> ok a" and rest: "\<forall>ok \<in> set oks. \<not> ok a" by auto
  from updateAllPrices_self [OF Cons.prems(1,2,3), of ok] f
  have c: "count_of ?s a = count_of s a + 1"
    and al: "alert_count ?s a = alert_count s a + (if 5 \<le> count_of s a + 1 then 1 else 0)"
    by simp_all
  have n: "numeric_counter ?s a" using Cons.prems(3) by (rule updateAllPrices_numeric)
  from Cons.IH [OF Cons.prems(1,2) n rest] c al
  show ?case by auto
qed

section \<open>Claims about the off-chain node\<close>

lemma kraken_retries: "effective_retries kraken None = 3"
  by (simp add: effective_retries_def kraken_def PriceSource_constructor_def or_default_def)

lemma attempt_trace_0_2:
  "attempt_trace 0 2 = [Call 0, Sleep 1000, Call 1, Sleep 2000, Call 2]"
  by (simp add: attempt_trace_def upt_rec numeral_2_eq_2)

text \<open>
  C7. \<open>withRetry\<close> is a total function: its loop ends for every operation and every
  retry count. It calls the operation at most \<open>retries\<close> times, and \<open>retries\<close> is 3 for
  a source built without configuration. When every attempt fails (and \<open>retries\<close> is
  at least 1) it makes exactly \<open>retries\<close> attempts, sleeps \<open>1000 * i\<close> ms after the
  \<open>i\<close>-th failed attempt (counted from 1) except the last, and throws the error of the
  last attempt. When an attempt within the bound returns, it stops there and returns
  that value.
\<close>

theorem withRetry_bounded:
  "length (filter is_call (fst (withRetry this fn rs_arg)))
     \<le> nat (effective_retries this rs_arg) \<and>
   retries (PriceSource_constructor nm \<lparr> cfg_timeout = None, cfg_retries = None \<rparr>) = 3 \<and>
   (1 \<le> effective_retries this rs_arg \<and>
      (\<forall>j. int j < effective_retries this rs_arg \<longrightarrow> isl (fn j)) \<longrightarrow>
      withRetry this fn rs_arg =
        (attempt_trace 0 (nat (effective_retries this rs_arg) - 1),
         Inl (projl (fn (nat (effective_retries this rs_arg) - 1))))) \<and>
   (int k < effective_retries this rs_arg \<and> (\<forall>j < k. isl (fn j)) \<and> fn k = Inr v \<longrightarrow>
      withRetry this fn rs_arg = (attempt_trace 0 k, Inr (Some v)))"
proof (intro conjI impI)
  show "length (filter is_call (fst (withRetry this fn rs_arg)))
          \<le> nat (effective_retries this rs_arg)"
    using loop_calls_le [of fn "effective_retries this rs_arg" 0]
    by (simp add: withRetry_def effective_retries_def)
next
  show "retries (PriceSource_constructor nm \<lparr> cfg_timeout = None, cfg_retries = None \<rparr>) = 3"
    by (simp add: PriceSource_constructor_def or_default_def)
next
  assume "1 \<le> effective_retries this rs_arg \<and>
      (\<forall>j. int j < effective_retries this rs_arg \<longrightarrow> isl (fn j))"
  then show "withRetry this fn rs_arg =
        (attempt_trace 0 (nat (effective_retries this rs_arg) - 1),
         Inl (projl (fn (nat (effective_retries this rs_arg) - 1))))"
    using loop_all_fail [of 0 "effective_retries this rs_arg" fn]
    by (simp add: withRetry_def effective_retries_def)
next
  assume "int k < effective_retries this rs_arg \<and> (\<forall>j < k. isl (fn j)) \<and> fn k = Inr v"
  then show "withRetry this fn rs_arg = (attempt_trace 0 k, Inr (Some v))"
    using loop_succeeds_at [of 0 k "effective_retries this rs_arg" fn v]
    by (simp add: withRetry_def effective_retries_def)
qed

theorem withRetry_bounded_witness:
  "withRetry kraken always_timeout None =
     ([Call 0, Sleep 1000, Call 1, Sleep 2000, Call 2], Inl ''ETIMEDOUT'') \<and>
   withRetry kraken second_try None = ([Call 0, Sleep 1000, Call 1], Inr (Some 50000))"
proof -
  have h1: "1 \<le> effective_retries kraken None \<and>
      (\<forall>j. int j < effective_retries kraken None \<longrightarrow> isl (always_timeout j))"
    by (simp add: kraken_retries always_timeout_def)
  have h2: "int 1 < effective_retries kraken None \<and> (\<forall>j < 1. isl (second_try j)) \<and>
      second_try 1 = Inr 50000"
    by (simp add: kraken_retries second_try_def)
  from withRetry_bounded [where this = kraken and fn = always_timeout and rs_arg = None] h1
  have 1: "withRetry kraken always_timeout None =
     ([Call 0, Sleep 1000, Call 1, Sleep 2000, Call 2], Inl ''ETIMEDOUT'')"
    by (simp add: kraken_retries attempt_trace_0_2 always_timeout_def)
  from withRetry_bounded [where this = kraken and fn = second_try and rs_arg = None
      and k = 1 and v = 50000] h2
  have 2: "withRetry kraken second_try None = ([Call 0, Sleep 1000, Call 1], Inr (Some 50000))"
    by (simp add: attempt_trace_def)
  from 1 2 show ?thesis by simp
qed


text \<open>
  C3, as stated, fails: with seven consecutive failed cycles for one asset the
  counter passes the threshold once, and \<open>sendAlert\<close> is called three times, on the
  fifth, the sixth and the seventh failure.
\<close>

theorem alert_on_every_failure_counterexample:
  "alerts (run_cycles [all_fail, all_fail, all_fail, all_fail, all_fail, all_fail, all_fail]
             [''BTC''] initial_state)
     = [alert_message ''BTC'', alert_message ''BTC'', alert_message ''BTC'']"
  by (simp add: initial_state_def update_round_def all_fail_def set_property_def
        get_property_def Object_prototype_keys_def)

lemma numeric_initial: "numeric_counter initial_state ''BTC''"
  by (simp add: numeric_counter_def initial_state_def Object_prototype_keys_def)

text \<open>
  C3, amended. For an asset whose counter is a number or not yet there (its name is
  not the name of a member of \<open>Object.prototype\<close>): a round that succeeds sets the
  counter to zero and sends no alert; a round that fails adds one to the counter and
  calls \<open>sendAlert\<close> whenever the new count is at least 5, so on the fifth consecutive
  failure and on every consecutive failure after it. After \<open>n\<close> consecutive failed
  cycles from a zero counter the count is \<open>n\<close> and \<open>n - 4\<close> alerts were sent for the
  asset (none below 5).
\<close>

theorem failure_counter_alerts:
  "(numeric_counter s a \<and> ok a \<longrightarrow>
      get_property (failureCount (update_round ok a s)) a = Own (Number 0) \<and>
      alerts (update_round ok a s) = alerts s) \<and>
   (numeric_counter s a \<and> \<not> ok a \<longrightarrow>
      get_property (failureCount (update_round ok a s)) a
        = Own (Number (count_of s a + 1)) \<and>
      alerts (update_round ok a s) =
        (if 5 \<le> count_of s a + 1 then alerts s @ [alert_message a] else alerts s)) \<and>
   (distinct assets \<and> a \<in> set assets \<and> numeric_counter s a \<and> count_of s a = 0 \<and>
      (\<forall>f \<in> set oks. \<not> f a) \<longrightarrow>
      count_of (run_cycles oks assets s) a = length oks \<and>
      alert_count (run_cycles oks assets s) a = alert_count s a + (length oks - 4))"
proof (intro conjI impI)
  assume d: "distinct assets \<and> a \<in> set assets \<and> numeric_counter s a \<and> count_of s a = 0 \<and>
      (\<forall>f \<in> set oks. \<not> f a)"
  then have "count_of (run_cycles oks assets s) a = count_of s a + length oks \<and>
   alert_count (run_cycles oks assets s) a =
     alert_count s a + ((count_of s a + length oks - 4) - (count_of s a - 4))"
    using run_cycles_failing [of assets a s oks] by blast
  with d show "count_of (run_cycles oks assets s) a = length oks"
    and "alert_count (run_cycles oks assets s) a = alert_count s a + (length oks - 4)"
    by simp_all
next
  assume "numeric_counter s a \<and> ok a"
  then show "get_property (failureCount (update_round ok a s)) a = Own (Number 0)"
    and "alerts (update_round ok a s) = alerts s"
    using update_round_succeeds [where ok = ok and s = s and a = a] by simp_all
next
  assume "numeric_counter s a \<and> \<not> ok a"
  then show "get_property (failureCount (update_round ok a s)) a
        = Own (Number (count_of s a + 1))"
    and "alerts (update_round ok a s) =
        (if 5 \<le> count_of s a + 1 then alerts s @ [alert_message a] else alerts s)"
    using update_round_fails [where ok = ok and s = s and a = a] by simp_all
qed

theorem failure_counter_alerts_witness:
  "get_property (failureCount (update_round all_succeed ''BTC''
      (run_cycles [all_fail, all_fail, all_fail, all_fail, all_fail, all_fail]
         [''BTC'', ''ETH''] initial_state))) ''BTC'' = Own (Number 0) \<and>
   get_property (failureCount (update_round all_fail ''BTC'' initial_state)) ''BTC''
     = Own (Number 1) \<and>
   count_of (run_cycles [all_fail, all_fail, all_fail, all_fail, all_fail, all_fail]
         [''BTC'', ''ETH''] initial_state) ''BTC'' = 6 \<and>
   alert_count (run_cycles [all_fail, all_fail, all_fail, all_fail, all_fail, all_fail]
         [''BTC'', ''ETH''] initial_state) ''BTC'' = 2"
proof -
  let ?oks = "[all_fail, all_fail, all_fail, all_fail, all_fail, all_fail]"
  let ?s = "run_cycles ?oks [''BTC'', ''ETH''] initial_state"
  have c0: "count_of initial_state ''BTC'' = 0"
    by (simp add: count_of_def initial_state_def get_property_def Object_prototype_keys_def)
  have h: "distinct [''BTC'', ''ETH''] \<and> ''BTC'' \<in> set [''BTC'', ''ETH''] \<and>
      numeric_counter initial_state ''BTC'' \<and> count_of initial_state ''BTC'' = 0 \<and>
      (\<forall>f \<in> set ?oks. \<not> f ''BTC'')"
    using numeric_initial c0 by (simp add: all_fail_def)
  have ns: "numeric_counter ?s ''BTC''"
    using numeric_initial by (rule run_cycles_numeric)
  have ok: "numeric_counter ?s ''BTC'' \<and> all_succeed ''BTC''"
    using ns by (simp add: all_succeed_def)
  have nok: "numeric_counter initial_state ''BTC'' \<and> \<not> all_fail ''BTC''"
    using numeric_initial by (simp add: all_fail_def)
  from failure_counter_alerts [where ok = all_succeed and a = "''BTC''" and s = ?s] ok
  have 1: "get_property (failureCount (update_round all_succeed ''BTC'' ?s)) ''BTC''
             = Own (Number 0)" by blast
  from failure_counter_alerts [where ok = all_fail and a = "''BTC''" and s = initial_state] nok
  have 2: "get_property (failureCount (update_round all_fail ''BTC'' initial_state)) ''BTC''
             = Own (Number 1)"
    by (simp add: c0)
  from failure_counter_alerts [where a = "''BTC''" and s = initial_state
      and assets = "[''BTC'', ''ETH'']" and oks = ?oks] h
  have 3: "count_of ?s ''BTC'' = 6 \<and> alert_count ?s ''BTC'' = 2"
    by (simp add: alert_count_def initial_state_def)
  from 1 2 3 show ?thesis by simp
qed

text \<open>
  For an asset named like a member of \<open>Object.prototype\<close> the first failure turns the
  counter into text, and no alert is sent however often the update fails.
\<close>

lemma inherited_counter_never_alerts:
  "alerts (run_cycles [all_fail, all_fail, all_fail, all_fail, all_fail, all_fail]
             [''constructor''] initial_state) = []"
  by (simp add: initial_state_def update_round_def all_fail_def set_property_def
        get_property_def Object_prototype_keys_def)

section \<open>The on-chain median and the validation of a price\<close>

subsection \<open>The bubble sort sorts\<close>

lemma copy_loop_eq:
  "length sortedPrices = length prices \<Longrightarrow> i \<le> length prices \<Longrightarrow>
   copy_loop prices sortedPrices i = take i sortedPrices @ drop i prices"
proof (induction prices sortedPrices i rule: copy_loop.induct)
  case (1 prices sortedPrices i)
  show ?case
  proof (cases "i < length prices")
    case False
    with "1.prems" show ?thesis by (simp add: copy_loop.simps)
  next
    case True
    let ?ys = "sortedPrices[i := prices ! i]"
    from True "1.prems" have "copy_loop prices ?ys (i + 1) = take (i + 1) ?ys @ drop (i + 1) prices"
      by (intro "1.IH") simp_all
    moreover from True "1.prems" have "take (i + 1) ?ys = take i sortedPrices @ [prices ! i]"
      by (simp add: take_Suc_conv_app_nth)
    moreover from True have "prices ! i # drop (i + 1) prices = drop i prices"
      by (simp add: Cons_nth_drop_Suc)
    ultimately show ?thesis using True
      by (subst copy_loop.simps) simp
  qed
qed

lemma copy_loop_all: "copy_loop prices (replicate (length prices) 0) 0 = prices"
  using copy_loop_eq [of "replicate (length prices) 0" prices 0] by simp

lemma bubble_inner_props:
  "length xs = n \<Longrightarrow> i < n - 1 \<Longrightarrow> j \<le> n - i - 1 \<Longrightarrow> \<forall>k \<le> j. xs ! k \<le> xs ! j \<Longrightarrow>
   length (bubble_inner xs n i j) = n \<and>
   mset (bubble_inner xs n i j) = mset xs \<and>
   (\<forall>k \<le> n - i - 1. bubble_inner xs n i j ! k \<le> bubble_inner xs n i j ! (n - i - 1)) \<and>
   (\<forall>k. n - i - 1 < k \<and> k < n \<longrightarrow> bubble_inner xs n i j ! k = xs ! k)"
proof (induction xs n i j rule: bubble_inner.induct)
  case (1 xs n i j)
  show ?case
  proof (cases "j < n - i - 1")
    case False
    with "1.prems" have "j = n - i - 1" by simp
    with False "1.prems" show ?thesis by (simp add: bubble_inner.simps)
  next
    case True
    let ?ys = "if xs ! j > xs ! (j + 1)
              then (let temp = xs ! j in (xs[j := xs ! (j + 1)])[j + 1 := temp])
              else xs"
    from True "1.prems" have jn: "j < n" "j + 1 < n" "j + 1 < length xs" "j < length xs" by auto
    have len: "length ?ys = n" using "1.prems" by (simp add: Let_def)
    have ms: "mset ?ys = mset xs"
      using jn mset_swap [of "j + 1" xs j] by (simp add: Let_def)
    have inv: "\<forall>k \<le> j + 1. ?ys ! k \<le> ?ys ! (j + 1)"
    proof (intro allI impI)
      fix k assume k: "k \<le> j + 1"
      show "?ys ! k \<le> ?ys ! (j + 1)"
      proof (cases "xs ! j > xs ! (j + 1)")
        case True
        with k jn "1.prems"(4) show ?thesis
          by (cases "k = j + 1"; cases "k = j") (auto simp: Let_def nth_list_update)
      next
        case False
        then have le: "xs ! j \<le> xs ! (j + 1)" by simp
        show ?thesis
        proof (cases "k = j + 1")
          case True
          with False show ?thesis by simp
        next
          case kf: False
          with k have "k \<le> j" by simp
          with "1.prems"(4) have "xs ! k \<le> xs ! j" by simp
          with le False show ?thesis by simp
        qed
      qed
    qed
    have keep: "\<forall>k. n - i - 1 < k \<and> k < n \<longrightarrow> ?ys ! k = xs ! k"
      using True jn by (auto simp: Let_def nth_list_update)
    from True have j1: "j + 1 \<le> n - i - 1" by simp
    from "1.IH" [OF True len "1.prems"(2) j1 inv]
    have IH: "length (bubble_inner ?ys n i (j + 1)) = n \<and>
      mset (bubble_inner ?ys n i (j + 1)) = mset ?ys \<and>
      (\<forall>k \<le> n - i - 1. bubble_inner ?ys n i (j + 1) ! k \<le> bubble_inner ?ys n i (j + 1) ! (n - i - 1)) \<and>
      (\<forall>k. n - i - 1 < k \<and> k < n \<longrightarrow> bubble_inner ?ys n i (j + 1) ! k = ?ys ! k)" .
    have unfold: "bubble_inner xs n i j = bubble_inner ?ys n i (j + 1)"
      using True by (subst bubble_inner.simps) simp
    from IH ms keep show ?thesis
      unfolding unfold by simp
  qed
qed


lemma prefix_mset:
  assumes "mset ys = mset xs" "length ys = length xs"
    and "\<forall>k. b < k \<and> k < length xs \<longrightarrow> ys ! k = xs ! k"
  shows "mset (take (Suc b) ys) = mset (take (Suc b) xs)"
proof -
  have "drop (Suc b) ys = drop (Suc b) xs"
    using assms(2,3) by (intro nth_equalityI) auto
  moreover have "mset (take (Suc b) ys) + mset (drop (Suc b) ys) = mset ys"
    using mset_append [of "take (Suc b) ys" "drop (Suc b) ys"] by simp
  moreover have "mset (take (Suc b) xs) + mset (drop (Suc b) xs) = mset xs"
    using mset_append [of "take (Suc b) xs" "drop (Suc b) xs"] by simp
  ultimately have "mset (take (Suc b) ys) + mset (drop (Suc b) xs)
      = mset (take (Suc b) xs) + mset (drop (Suc b) xs)"
    using assms(1) by simp
  then show ?thesis by (simp only: add_right_cancel)
qed

lemma bubble_inner_tail:
  assumes len: "length xs = n" and i: "i < n - 1"
    and tail: "\<forall>p q. n - i \<le> q \<and> q < n \<and> p \<le> q \<longrightarrow> xs ! p \<le> xs ! q"
  shows "\<forall>p q. n - (i + 1) \<le> q \<and> q < n \<and> p \<le> q \<longrightarrow>
           bubble_inner xs n i 0 ! p \<le> bubble_inner xs n i 0 ! q"
proof (intro allI impI)
  fix p q
  let ?ys = "bubble_inner xs n i 0"
  let ?b = "n - i - 1"
  assume pq: "n - (i + 1) \<le> q \<and> q < n \<and> p \<le> q"
  from bubble_inner_props [OF len i, of 0]
  have l: "length ?ys = n" and m: "mset ?ys = mset xs"
    and top: "\<forall>k \<le> ?b. ?ys ! k \<le> ?ys ! ?b"
    and keep: "\<forall>k. ?b < k \<and> k < n \<longrightarrow> ?ys ! k = xs ! k"
    by simp_all
  from i have b: "?b < n" "Suc ?b = n - i" by auto
  show "?ys ! p \<le> ?ys ! q"
  proof (cases "q = ?b")
    case True
    with pq top show ?thesis by simp
  next
    case False
    with pq have q: "?b < q" "n - i \<le> q" by auto
    with pq keep have yq: "?ys ! q = xs ! q" by simp
    show ?thesis
    proof (cases "?b < p")
      case True
      with pq keep have "?ys ! p = xs ! p" by simp
      with yq tail q pq show ?thesis by simp
    next
      case False
      then have pb: "p < Suc ?b" by simp
      have "mset (take (Suc ?b) ?ys) = mset (take (Suc ?b) xs)"
        using prefix_mset [of ?ys xs ?b] m l len keep by simp
      then have "set (take (Suc ?b) ?ys) = set (take (Suc ?b) xs)"
        by (rule mset_eq_setD)
      moreover have "?ys ! p \<in> set (take (Suc ?b) ?ys)"
      proof -
        from pb l b have "p < length (take (Suc ?b) ?ys)" by simp
        then have "take (Suc ?b) ?ys ! p \<in> set (take (Suc ?b) ?ys)" by (rule nth_mem)
        with pb show ?thesis by simp
      qed
      ultimately have "?ys ! p \<in> set (take (Suc ?b) xs)" by simp
      then obtain p' where p': "p' < Suc ?b" "p' < length xs" "?ys ! p = xs ! p'"
        by (auto simp: in_set_conv_nth)
      with q have "p' \<le> q" by simp
      with tail q pq p' have "xs ! p' \<le> xs ! q" by simp
      with p' yq show ?thesis by simp
    qed
  qed
qed

lemma bubble_outer_props:
  "length xs = n \<Longrightarrow> i \<le> n - 1 \<Longrightarrow>
   \<forall>p q. n - i \<le> q \<and> q < n \<and> p \<le> q \<longrightarrow> xs ! p \<le> xs ! q \<Longrightarrow>
   mset (bubble_outer xs n i) = mset xs \<and> sorted (bubble_outer xs n i)"
proof (induction xs n i rule: bubble_outer.induct)
  case (1 xs n i)
  show ?case
  proof (cases "i < n - 1")
    case False
    with "1.prems" have i: "i = n - 1" by simp
    have "sorted xs"
      unfolding sorted_iff_nth_mono
    proof (intro allI impI)
      fix p q assume "p \<le> q" "q < length xs"
      then show "xs ! p \<le> xs ! q"
        using "1.prems"(1,3) i by (cases "q = 0") auto
    qed
    with False show ?thesis by (simp add: bubble_outer.simps)
  next
    case True
    let ?ys = "bubble_inner xs n i 0"
    from bubble_inner_props [OF "1.prems"(1) True, of 0]
    have l: "length ?ys = n" and m: "mset ?ys = mset xs" by simp_all
    from True have i1: "i + 1 \<le> n - 1" by simp
    from "1.IH" [OF True l i1 bubble_inner_tail [OF "1.prems"(1) True "1.prems"(3)]]
    have "mset (bubble_outer ?ys n (i + 1)) = mset ?ys \<and> sorted (bubble_outer ?ys n (i + 1))" .
    moreover have "bubble_outer xs n i = bubble_outer ?ys n (i + 1)"
      using True by (subst bubble_outer.simps) simp
    ultimately show ?thesis using m by simp
  qed
qed

lemma bubble_outer_sort: "bubble_outer xs (length xs) 0 = sort xs"
proof -
  have "mset (bubble_outer xs (length xs) 0) = mset xs \<and>
        sorted (bubble_outer xs (length xs) 0)"
    by (rule bubble_outer_props) auto
  then have "sort xs = bubble_outer xs (length xs) 0"
    by (intro properties_for_sort) simp_all
  then show ?thesis by simp
qed

lemma calculateMedian_sort:
  "prices \<noteq> [] \<Longrightarrow>
   calculateMedian prices =
     (let s = sort prices; mid = length prices div 2
      in if even (length prices)
         then (case checked_add (s ! (mid - 1)) (s ! mid) of
                 Inl e \<Rightarrow> Inl e | Inr t \<Rightarrow> Inr (t div 2))
         else Inr (s ! mid))"
  by (auto simp add: calculateMedian_def copy_loop_all bubble_outer_sort Let_def)

lemma unat_sort: "map unat (sort (xs :: uint256 list)) = sort (map unat xs)"
proof -
  have "mset (map unat (sort xs)) = mset (map unat xs)" by simp
  moreover have "sorted (map unat (sort xs))"
    using sorted_sort [of xs]
    by (simp add: sorted_map sorted_wrt_iff_nth_less word_le_nat_alt)
  ultimately have "sort (map unat xs) = map unat (sort xs)" by (rule properties_for_sort)
  then show ?thesis by simp
qed

subsection \<open>Median and deviation on natural numbers\<close>

lemma unat_sort_nth:
  "k < length xs \<Longrightarrow> sort (map unat xs) ! k = unat (sort (xs :: uint256 list) ! k)"
  using unat_sort [of xs] by (metis length_sort nth_map)

lemma calculateMedian_nat:
  assumes ne: "prices \<noteq> []"
    and fit: "even (length prices) \<longrightarrow> middle_sum (map unat prices) < 2 ^ 256"
  shows "\<exists>m. calculateMedian prices = Inr m \<and> unat m = median_nat (map unat prices)"
proof -
  let ?n = "length prices"
  let ?s = "sort prices"
  let ?mid = "?n div 2"
  from ne have pos: "0 < ?n" by simp
  then have mid: "?mid < ?n" "?mid - 1 < ?n" by arith+
  show ?thesis
  proof (cases "even ?n")
    case False
    with ne have "calculateMedian prices = Inr (?s ! ?mid)"
      by (simp add: calculateMedian_sort Let_def)
    moreover from False mid have "unat (?s ! ?mid) = median_nat (map unat prices)"
      by (simp add: median_nat_def Let_def unat_sort_nth)
    ultimately show ?thesis by simp
  next
    case True
    let ?a = "?s ! (?mid - 1)" and ?b = "?s ! ?mid"
    from True fit mid have sum: "unat ?a + unat ?b < 2 ^ 256"
      by (simp add: middle_sum_def Let_def unat_sort_nth)
    then have add: "checked_add ?a ?b = Inr (?a + ?b)" by (simp add: checked_add_def)
    from sum have "unat (?a + ?b) = unat ?a + unat ?b"
      by (simp add: unat_add_lem [THEN iffD1])
    then have "unat ((?a + ?b) div 2) = (unat ?a + unat ?b) div 2"
      by (simp add: unat_div)
    moreover from True mid have "median_nat (map unat prices) = (unat ?a + unat ?b) div 2"
      by (simp add: median_nat_def Let_def unat_sort_nth)
    moreover from True ne add have "calculateMedian prices = Inr ((?a + ?b) div 2)"
      by (simp add: calculateMedian_sort Let_def)
    ultimately show ?thesis by simp
  qed
qed

lemma calculateMedian_overflow:
  assumes ne: "prices \<noteq> []" and ev: "even (length prices)"
    and big: "\<not> middle_sum (map unat prices) < 2 ^ 256"
  shows "calculateMedian prices = Inl PanicArithmetic"
proof -
  let ?n = "length prices"
  from ne have "0 < ?n" by simp
  then have mid: "?n div 2 < ?n" "?n div 2 - 1 < ?n" by arith+
  with big have "\<not> unat (sort prices ! (?n div 2 - 1)) + unat (sort prices ! (?n div 2)) < 2 ^ 256"
    by (simp add: middle_sum_def Let_def unat_sort_nth)
  with ne ev show ?thesis
    by (simp add: calculateMedian_sort Let_def checked_add_def)
qed

lemma deviation_of_nat:
  assumes nz: "unat median \<noteq> 0"
    and fit: "distance (unat newPrice) (unat median) * 10000 < 2 ^ 256"
  shows "\<exists>d. deviation_of newPrice median = Inr d \<and>
           unat d = deviationBp (unat newPrice) (unat median)"
proof -
  let ?diff = "if newPrice > median then newPrice - median else median - newPrice"
  have diff: "unat ?diff = distance (unat newPrice) (unat median)"
    by (auto simp: distance_def word_less_nat_alt unat_sub word_le_nat_alt)
  with fit have m: "unat ?diff * unat (10000 :: uint256) < 2 ^ 256" by simp
  then have mul: "checked_mul ?diff 10000 = Inr (?diff * 10000)"
    by (simp add: checked_mul_def)
  from m have um: "unat (?diff * 10000) = unat ?diff * 10000"
    using unat_mult_lem [of ?diff "10000 :: uint256"] by simp
  from nz have mz: "median \<noteq> 0" by auto
  have "deviation_of newPrice median = Inr ((?diff * 10000) div median)"
    using mul mz by (simp add: deviation_of_def checked_div_def Let_def)
  moreover have "unat ((?diff * 10000) div median) = deviationBp (unat newPrice) (unat median)"
    using um diff by (simp add: unat_div deviationBp_def distance_def)
  ultimately show ?thesis by blast
qed

lemma validatePrice_nat:
  assumes len: "MIN_SOURCES \<le> length sourcePrices"
    and dd: "deviation_defined (unat newPrice) (map unat sourcePrices)"
  shows "validatePrice newPrice sourcePrices =
           Inr (deviationBp (unat newPrice) (median_nat (map unat sourcePrices)) \<le> 1000)"
proof -
  from len have ne: "sourcePrices \<noteq> []" by (auto simp: MIN_SOURCES_def)
  from dd have fit: "even (length sourcePrices) \<longrightarrow> middle_sum (map unat sourcePrices) < 2 ^ 256"
    by (simp add: deviation_defined_def)
  from calculateMedian_nat [OF ne fit] obtain m where
    m: "calculateMedian sourcePrices = Inr m" "unat m = median_nat (map unat sourcePrices)"
    by blast
  from dd m have "unat m \<noteq> 0" "distance (unat newPrice) (unat m) * 10000 < 2 ^ 256"
    by (simp_all add: deviation_defined_def)
  from deviation_of_nat [OF this] obtain d where
    d: "deviation_of newPrice m = Inr d" "unat d = deviationBp (unat newPrice) (unat m)"
    by blast
  have "(d \<le> MAX_DEVIATION) = (unat d \<le> 1000)"
    by (simp add: MAX_DEVIATION_def word_le_nat_alt)
  with len m d show ?thesis
    by (simp add: validatePrice_def)
qed

lemma median_sample: "median_nat (map unat [49900, 50000, 50100 :: uint256]) = 50000"
  by (simp add: median_nat_def)

lemma defined_sample:
  "deviation_defined (unat (50000 :: uint256)) (map unat [49900, 50000, 50100 :: uint256])"
  "deviation_defined (unat (70000 :: uint256)) (map unat [49900, 50000, 50100 :: uint256])"
  by (simp_all add: deviation_defined_def median_nat_def distance_def)

lemma deviation_of_overflow:
  assumes "\<not> distance (unat newPrice) (unat median) * 10000 < 2 ^ 256"
  shows "deviation_of newPrice median = Inl PanicArithmetic"
proof -
  let ?diff = "if newPrice > median then newPrice - median else median - newPrice"
  have diff: "unat ?diff = distance (unat newPrice) (unat median)"
    by (auto simp: distance_def word_less_nat_alt unat_sub word_le_nat_alt)
  with assms have "\<not> unat ?diff * unat (10000 :: uint256) < 2 ^ 256" by simp
  then have "checked_mul ?diff 10000 = Inl PanicArithmetic"
    by (simp add: checked_mul_def)
  then show ?thesis by (simp add: deviation_of_def Let_def)
qed

lemma validatePrice_overflow:
  assumes len: "MIN_SOURCES \<le> length sourcePrices"
    and ov: "arithmetic_overflows (unat newPrice) (map unat sourcePrices)"
  shows "validatePrice newPrice sourcePrices = Inl PanicArithmetic"
proof -
  from len have ne: "sourcePrices \<noteq> []" by (auto simp: MIN_SOURCES_def)
  show ?thesis
  proof (cases "even (length sourcePrices) \<and> \<not> middle_sum (map unat sourcePrices) < 2 ^ 256")
    case True
    then have "calculateMedian sourcePrices = Inl PanicArithmetic"
      using calculateMedian_overflow [OF ne] by simp
    with len show ?thesis by (simp add: validatePrice_def)
  next
    case False
    then have fit: "even (length sourcePrices) \<longrightarrow> middle_sum (map unat sourcePrices) < 2 ^ 256"
      by blast
    from calculateMedian_nat [OF ne fit] obtain m where
      m: "calculateMedian sourcePrices = Inr m" "unat m = median_nat (map unat sourcePrices)"
      by blast
    from ov False m have "\<not> distance (unat newPrice) (unat m) * 10000 < 2 ^ 256"
      by (auto simp: arithmetic_overflows_def)
    then have "deviation_of newPrice m = Inl PanicArithmetic" by (rule deviation_of_overflow)
    with len m show ?thesis by (simp add: validatePrice_def)
  qed
qed

lemma deviationBp_exceeds:
  "0 < m \<Longrightarrow> (1000 < deviationBp v m) = (1001 * m \<le> distance v m * 10000)"
proof -
  assume m: "0 < m"
  have "(1000 < deviationBp v m) = (1001 \<le> distance v m * 10000 div m)"
    by (auto simp: deviationBp_def distance_def)
  also have "\<dots> = (1001 * m \<le> distance v m * 10000)"
    using m by (simp add: less_eq_div_iff_mult_less_eq)
  finally show ?thesis .
qed

lemma overflow_sample:
  "arithmetic_overflows (unat (1 :: uint256)) (map unat [huge, huge, huge])"
  by (simp add: arithmetic_overflows_def median_nat_def distance_def huge_def)

lemma OracleNode_calculateMedian_odd:
  "odd (length prices) \<Longrightarrow>
   OracleNode_calculateMedian prices = Num (sort prices ! (length prices div 2))"
  by (simp add: OracleNode_calculateMedian_def Let_def odd_iff_mod_2_eq_one)

lemma OracleNode_calculateMedian_even:
  assumes ne: "prices \<noteq> []" and ev: "even (length prices)"
  shows "OracleNode_calculateMedian prices =
     halve (to_double (sort prices ! (length prices div 2 - 1)
                         + sort prices ! (length prices div 2)))"
proof -
  have "sort prices \<noteq> []"
  proof
    assume "sort prices = []"
    then have "length (sort prices) = 0" by simp
    with ne show False by simp
  qed
  with ev show ?thesis
    by (simp add: OracleNode_calculateMedian_def Let_def)
qed

subsection \<open>The median\<close>

text \<open>
  C2, as stated, fails. On the contract \<open>_calculateMedian\<close> works on \<open>uint256\<close> and
  returns 1 for the prices 1 and 2, not their arithmetic mean 1.5. Off chain the sum
  of the two middle elements is rounded to a double before it is halved: for
  \<open>2 ^ 53 - 1\<close> and \<open>2 ^ 53\<close> the result is \<open>2 ^ 53\<close>, not their mean.
\<close>

theorem calculateMedian_counterexample:
  "calculateMedian [1, 2] = Inr 1 \<and> (of_nat (unat (1 :: uint256)) :: rat) \<noteq> (1 + 2) / 2 \<and>
   OracleNode_calculateMedian [9007199254740991, 9007199254740992] = Num 9007199254740992 \<and>
   (9007199254740992 :: rat) \<noteq> (9007199254740991 + 9007199254740992) / 2"
proof -
  have "calculateMedian [1, 2] = Inr 1"
    by (simp add: calculateMedian_def checked_add_def loop_simps)
  moreover have "(of_nat (unat (1 :: uint256)) :: rat) \<noteq> (1 + 2) / 2" by simp
  moreover have
    "OracleNode_calculateMedian [9007199254740991, 9007199254740992] = Num 9007199254740992"
    by code_simp
  moreover have "(9007199254740992 :: rat) \<noteq> (9007199254740991 + 9007199254740992) / 2"
    by simp
  ultimately show ?thesis by blast
qed

text \<open>
  C2, amended. For every non-empty array of prices both median functions sort the
  array ascending and return the middle element when the count is odd. When the
  count is even, the contract returns the mean of the two middle elements rounded
  down to an integer, provided their sum fits in 256 bits; the off-chain function
  returns their sum, rounded to a double, halved and rounded to a double, which is
  their arithmetic mean whenever the sum and its half are doubles. The median of
  49900, 50000, 50100 is 50000 in both; the median of 1, 2 is 1.5 off chain and 1 on
  the contract.
\<close>

theorem calculateMedian_median:
  "(prices \<noteq> [] \<and> (even (length prices) \<longrightarrow> middle_sum (map unat prices) < 2 ^ 256) \<longrightarrow>
      (\<exists>m. calculateMedian prices = Inr m \<and> unat m = median_nat (map unat prices))) \<and>
   (odd (length numbers) \<longrightarrow>
      OracleNode_calculateMedian numbers = Num (sort numbers ! (length numbers div 2))) \<and>
   (numbers \<noteq> [] \<and> even (length numbers) \<and>
      lo = sort numbers ! (length numbers div 2 - 1) \<and>
      hi = sort numbers ! (length numbers div 2) \<longrightarrow>
      OracleNode_calculateMedian numbers = halve (to_double (lo + hi)) \<and>
      (to_double (lo + hi) = Num (lo + hi) \<and> to_double ((lo + hi) / 2) = Num ((lo + hi) / 2)
         \<longrightarrow> OracleNode_calculateMedian numbers = Num ((lo + hi) / 2))) \<and>
   calculateMedian [49900, 50000, 50100] = Inr 50000 \<and>
   calculateMedian [1, 2] = Inr 1 \<and>
   OracleNode_calculateMedian [49900, 50000, 50100] = Num 50000 \<and>
   OracleNode_calculateMedian [1, 2] = Num (3 / 2)"
proof (intro conjI impI)
  assume "prices \<noteq> [] \<and> (even (length prices) \<longrightarrow> middle_sum (map unat prices) < 2 ^ 256)"
  then show "\<exists>m. calculateMedian prices = Inr m \<and> unat m = median_nat (map unat prices)"
    using calculateMedian_nat [of prices] by blast
next
  assume "odd (length numbers)"
  then show "OracleNode_calculateMedian numbers = Num (sort numbers ! (length numbers div 2))"
    by (rule OracleNode_calculateMedian_odd)
next
  assume h: "numbers \<noteq> [] \<and> even (length numbers) \<and>
      lo = sort numbers ! (length numbers div 2 - 1) \<and>
      hi = sort numbers ! (length numbers div 2)"
  then show e: "OracleNode_calculateMedian numbers = halve (to_double (lo + hi))"
    using OracleNode_calculateMedian_even [of numbers] by simp
  assume "to_double (lo + hi) = Num (lo + hi) \<and> to_double ((lo + hi) / 2) = Num ((lo + hi) / 2)"
  with e show "OracleNode_calculateMedian numbers = Num ((lo + hi) / 2)" by simp
next
  show "calculateMedian [49900, 50000, 50100] = Inr 50000"
    by (simp add: calculateMedian_def loop_simps)
next
  show "calculateMedian [1, 2] = Inr 1"
    by (simp add: calculateMedian_def checked_add_def loop_simps)
next
  show "OracleNode_calculateMedian [49900, 50000, 50100] = Num 50000" by code_simp
next
  show "OracleNode_calculateMedian [1, 2] = Num (3 / 2)" by code_simp
qed

theorem calculateMedian_median_witness:
  "(\<exists>m. calculateMedian [3, 1, 4, 2] = Inr m \<and> unat m = 2) \<and>
   OracleNode_calculateMedian [7, 1, 5] = Num 5 \<and>
   OracleNode_calculateMedian [4, 1 / 4, 3, 2] = Num (5 / 2)"
proof -
  have h: "[3, 1, 4, 2 :: uint256] \<noteq> [] \<and>
     (even (length [3, 1, 4, 2 :: uint256]) \<longrightarrow>
        middle_sum (map unat [3, 1, 4, 2 :: uint256]) < 2 ^ 256)"
    by (simp add: middle_sum_def)
  have "median_nat (map unat [3, 1, 4, 2 :: uint256]) = 2"
    by (simp add: median_nat_def)
  with calculateMedian_median [where prices = "[3, 1, 4, 2]"] h
  have 1: "\<exists>m. calculateMedian [3, 1, 4, 2] = Inr m \<and> unat m = 2" by simp
  have s3: "sort [7, 1, 5 :: rat] ! (length [7, 1, 5 :: rat] div 2) = 5" by simp
  from calculateMedian_median [where numbers = "[7, 1, 5]"]
  have 2: "OracleNode_calculateMedian [7, 1, 5] = Num 5" by (simp add: s3)
  have k: "[4, 1 / 4, 3, 2 :: rat] \<noteq> [] \<and> even (length [4, 1 / 4, 3, 2 :: rat]) \<and>
      (2 :: rat) = sort [4, 1 / 4, 3, 2] ! (length [4, 1 / 4, 3, 2 :: rat] div 2 - 1) \<and>
      (3 :: rat) = sort [4, 1 / 4, 3, 2] ! (length [4, 1 / 4, 3, 2 :: rat] div 2)"
    by simp
  have x: "to_double (2 + 3) = Num (2 + 3) \<and> to_double ((2 + 3) / 2) = Num ((2 + 3) / 2)"
    by code_simp
  from calculateMedian_median [where numbers = "[4, 1 / 4, 3, 2]" and lo = 2 and hi = 3] k x
  have 3: "OracleNode_calculateMedian [4, 1 / 4, 3, 2] = Num (5 / 2)" by simp
  from 1 2 3 show ?thesis by blast
qed

subsection \<open>The checks of updatePrice\<close>

text \<open>
  C1, as stated, fails. An active node that submits the price 0 with two source
  prices is refused with invalid-price, not insufficient-sources: the price check
  comes first. The price 55004 is accepted against the median 50000 although it lies
  1000.8 basis points away: the contract divides integers, so the deviation counts
  as 1000. And a price 2 basis points away from the median of its sources is neither
  accepted nor refused as a failed validation when the scaled difference exceeds
  256 bits: the checked multiplication reverts with Panic(0x11).
\<close>

theorem updatePrice_counterexample:
  "active (nodes publisher_state 5) \<and> length [1, 2 :: uint256] < MIN_SOURCES \<and>
   updatePrice publisher_state 5 1000 0 [1, 2] [1, 2] = Inl InvalidPrice \<and>
   updatePrice publisher_state 5 1000 55004 [49900, 50000, 50100] [1, 2, 3]
     = Inr (stored publisher_state 5 1000 55004) \<and>
   (1000 :: nat) * 50000 < (55004 - 50000) * 10000 \<and>
   deviationBp 57910179395176324786422158884349897274761612203995286971393764853566905778176
     57896044618658097711785492504343953926634992332820282019728792003956564819968 = 2 \<and>
   updatePrice publisher_state 5 1000
     57910179395176324786422158884349897274761612203995286971393764853566905778176
     [57896044618658097711785492504343953926634992332820282019728792003956564819968,
      57896044618658097711785492504343953926634992332820282019728792003956564819968,
      57896044618658097711785492504343953926634992332820282019728792003956564819968]
     [1, 2, 3] = Inl PanicArithmetic"
  by (simp add: updatePrice_def publisher_state_simps MIN_SOURCES_def validatePrice_def
        calculateMedian_def deviation_of_def checked_mul_def checked_div_def deviationBp_def
        MAX_DEVIATION_def stored_def loop_simps)

text \<open>
  C1, amended. \<open>updatePrice\<close> applies its checks in this order: it fails with
  node-not-active when the caller is not an active node, whatever the values; else
  with invalid-price when the price is 0; else with insufficient-sources when there
  are fewer than 3 source prices; else with mismatched-arrays when the two arrays
  differ in length. Otherwise it reverts with Panic(0x11) when the sum of the two
  middle source prices (for an even count) or the distance of the price from the
  median times 10000 exceeds 256 bits. Otherwise, when the median is not zero, it
  fails with price-validation-failed when the deviation, in basis points rounded down
  to a whole number, exceeds 1000 (that is, when the distance times 10000 is at
  least 1001 times the median), and else succeeds, storing the price with
  \<open>timestamp = now\<close> and \<open>valid = true\<close> and setting the caller's \<open>lastUpdate\<close> to \<open>now\<close>.
\<close>

theorem updatePrice_checks_in_order:
  "(\<not> active (nodes st sender) \<longrightarrow>
      updatePrice st sender now newPrice sourcePrices sources = Inl NodeNotActive) \<and>
   (active (nodes st sender) \<and> newPrice = 0 \<longrightarrow>
      updatePrice st sender now newPrice sourcePrices sources = Inl InvalidPrice) \<and>
   (active (nodes st sender) \<and> newPrice \<noteq> 0 \<and> length sourcePrices < 3 \<longrightarrow>
      updatePrice st sender now newPrice sourcePrices sources = Inl InsufficientSources) \<and>
   (active (nodes st sender) \<and> newPrice \<noteq> 0 \<and> 3 \<le> length sourcePrices \<and>
      length sourcePrices \<noteq> length sources \<longrightarrow>
      updatePrice st sender now newPrice sourcePrices sources = Inl MismatchedArrays) \<and>
   (active (nodes st sender) \<and> newPrice \<noteq> 0 \<and> 3 \<le> length sourcePrices \<and>
      length sourcePrices = length sources \<and>
      arithmetic_overflows (unat newPrice) (map unat sourcePrices) \<longrightarrow>
      updatePrice st sender now newPrice sourcePrices sources = Inl PanicArithmetic) \<and>
   (active (nodes st sender) \<and> newPrice \<noteq> 0 \<and> 3 \<le> length sourcePrices \<and>
      length sourcePrices = length sources \<and>
      deviation_defined (unat newPrice) (map unat sourcePrices) \<and>
      deviationBp (unat newPrice) (median_nat (map unat sourcePrices)) > 1000 \<longrightarrow>
      updatePrice st sender now newPrice sourcePrices sources = Inl PriceValidationFailed) \<and>
   (active (nodes st sender) \<and> newPrice \<noteq> 0 \<and> 3 \<le> length sourcePrices \<and>
      length sourcePrices = length sources \<and>
      deviation_defined (unat newPrice) (map unat sourcePrices) \<and>
      deviationBp (unat newPrice) (median_nat (map unat sourcePrices)) \<le> 1000 \<longrightarrow>
      updatePrice st sender now newPrice sourcePrices sources
        = Inr (stored st sender now newPrice)) \<and>
   (0 < m \<longrightarrow> (1000 < deviationBp v m) = (1001 * m \<le> distance v m * 10000))"
proof (intro conjI impI)
  assume h: "active (nodes st sender) \<and> newPrice \<noteq> 0 \<and> 3 \<le> length sourcePrices \<and>
      length sourcePrices = length sources \<and>
      deviation_defined (unat newPrice) (map unat sourcePrices) \<and>
      deviationBp (unat newPrice) (median_nat (map unat sourcePrices)) > 1000"
  then have "validatePrice newPrice sourcePrices = Inr False"
    using validatePrice_nat [of sourcePrices newPrice] by (simp add: MIN_SOURCES_def)
  with h show "updatePrice st sender now newPrice sourcePrices sources = Inl PriceValidationFailed"
    by (simp add: updatePrice_def MIN_SOURCES_def word_greater_zero_iff)
next
  assume h: "active (nodes st sender) \<and> newPrice \<noteq> 0 \<and> 3 \<le> length sourcePrices \<and>
      length sourcePrices = length sources \<and>
      deviation_defined (unat newPrice) (map unat sourcePrices) \<and>
      deviationBp (unat newPrice) (median_nat (map unat sourcePrices)) \<le> 1000"
  then have "validatePrice newPrice sourcePrices = Inr True"
    using validatePrice_nat [of sourcePrices newPrice] by (simp add: MIN_SOURCES_def)
  with h show "updatePrice st sender now newPrice sourcePrices sources
        = Inr (stored st sender now newPrice)"
    by (simp add: updatePrice_def MIN_SOURCES_def word_greater_zero_iff stored_def)
next
  assume h: "active (nodes st sender) \<and> newPrice \<noteq> 0 \<and> 3 \<le> length sourcePrices \<and>
      length sourcePrices = length sources \<and>
      arithmetic_overflows (unat newPrice) (map unat sourcePrices)"
  then have "validatePrice newPrice sourcePrices = Inl PanicArithmetic"
    using validatePrice_overflow [of sourcePrices newPrice] by (simp add: MIN_SOURCES_def)
  with h show "updatePrice st sender now newPrice sourcePrices sources = Inl PanicArithmetic"
    by (simp add: updatePrice_def MIN_SOURCES_def word_greater_zero_iff)
next
  assume "0 < m"
  then show "(1000 < deviationBp v m) = (1001 * m \<le> distance v m * 10000)"
    by (rule deviationBp_exceeds)
qed (simp_all add: updatePrice_def MIN_SOURCES_def word_greater_zero_iff)

theorem updatePrice_checks_in_order_witness:
  "updatePrice publisher_state 7 1000 50000 [49900, 50000, 50100] [1, 2, 3]
     = Inl NodeNotActive \<and>
   updatePrice publisher_state 5 1000 0 [49900, 50000, 50100] [1, 2, 3]
     = Inl InvalidPrice \<and>
   updatePrice publisher_state 5 1000 50000 [50000] [1] = Inl InsufficientSources \<and>
   updatePrice publisher_state 5 1000 50000 [49900, 50000, 50100] [1, 2]
     = Inl MismatchedArrays \<and>
   updatePrice publisher_state 5 1000 1 [huge, huge, huge] [1, 2, 3]
     = Inl PanicArithmetic \<and>
   updatePrice publisher_state 5 1000 70000 [49900, 50000, 50100] [1, 2, 3]
     = Inl PriceValidationFailed \<and>
   updatePrice publisher_state 5 1000 50000 [49900, 50000, 50100] [1, 2, 3]
     = Inr (stored publisher_state 5 1000 50000) \<and>
   (1000 < deviationBp 55005 50000) = (1001 * 50000 \<le> distance 55005 50000 * 10000)"
proof -
  note a = publisher_state_simps
  have 1: "updatePrice publisher_state 7 1000 50000 [49900, 50000, 50100] [1, 2, 3]
     = Inl NodeNotActive"
    using updatePrice_checks_in_order [where st = publisher_state and sender = 7
        and now = 1000 and newPrice = 50000 and sourcePrices = "[49900, 50000, 50100]"
        and sources = "[1, 2, 3]"] a
    by simp
  have 2: "updatePrice publisher_state 5 1000 0 [49900, 50000, 50100] [1, 2, 3]
     = Inl InvalidPrice"
    using updatePrice_checks_in_order [where st = publisher_state and sender = 5
        and now = 1000 and newPrice = 0 and sourcePrices = "[49900, 50000, 50100]"
        and sources = "[1, 2, 3]"] a
    by simp
  have 3: "updatePrice publisher_state 5 1000 50000 [50000] [1] = Inl InsufficientSources"
    using updatePrice_checks_in_order [where st = publisher_state and sender = 5
        and now = 1000 and newPrice = 50000 and sourcePrices = "[50000]"
        and sources = "[1]"] a
    by simp
  have 4: "updatePrice publisher_state 5 1000 50000 [49900, 50000, 50100] [1, 2]
     = Inl MismatchedArrays"
    using updatePrice_checks_in_order [where st = publisher_state and sender = 5
        and now = 1000 and newPrice = 50000 and sourcePrices = "[49900, 50000, 50100]"
        and sources = "[1, 2]"] a
    by simp
  have 5: "updatePrice publisher_state 5 1000 1 [huge, huge, huge] [1, 2, 3]
     = Inl PanicArithmetic"
    using updatePrice_checks_in_order [where st = publisher_state and sender = 5
        and now = 1000 and newPrice = 1 and sourcePrices = "[huge, huge, huge]"
        and sources = "[1, 2, 3]"] a overflow_sample
    by simp
  have 6: "updatePrice publisher_state 5 1000 70000 [49900, 50000, 50100] [1, 2, 3]
     = Inl PriceValidationFailed"
    using updatePrice_checks_in_order [where st = publisher_state and sender = 5
        and now = 1000 and newPrice = 70000 and sourcePrices = "[49900, 50000, 50100]"
        and sources = "[1, 2, 3]"] a defined_sample median_sample
    by (simp add: deviationBp_def)
  have 7: "updatePrice publisher_state 5 1000 50000 [49900, 50000, 50100] [1, 2, 3]
     = Inr (stored publisher_state 5 1000 50000)"
    using updatePrice_checks_in_order [where st = publisher_state and sender = 5
        and now = 1000 and newPrice = 50000 and sourcePrices = "[49900, 50000, 50100]"
        and sources = "[1, 2, 3]"] a defined_sample median_sample
    by (simp add: deviationBp_def)
  have 8: "(1000 < deviationBp 55005 50000) = (1001 * 50000 \<le> distance 55005 50000 * 10000)"
    using updatePrice_checks_in_order [where m = 50000 and v = 55005] by simp
  from 1 2 3 4 5 6 7 8 show ?thesis by blast
qed

end
